theory Spec2Isabelle
  imports Complex_Main
begin

section \<open>Python strings and integers\<close>

text \<open>
  Python's \<open>str(int)\<close>, as used by the f-strings of the repository: decimal digits, most
  significant first, with a leading minus sign for a negative number.
\<close>

definition digit_char :: "nat \<Rightarrow> char" where
  "digit_char d = ''0123456789'' ! d"

fun str_nat :: "nat \<Rightarrow> string" where
  "str_nat n = (if n < 10 then [digit_char n] else str_nat (n div 10) @ [digit_char (n mod 10)])"

declare str_nat.simps [simp del]

definition str_int :: "int \<Rightarrow> string" where
  "str_int i = (if i < 0 then CHR ''-'' # str_nat (nat (- i)) else str_nat (nat i))"

text \<open>
  \<open>s.startswith(pre)\<close> and \<open>s.replace(old, new)\<close>. Python replaces the non-overlapping
  occurrences of \<open>old\<close> from left to right; with an empty \<open>old\<close> it puts \<open>new\<close> before
  every character and at the end.
\<close>

definition startswith :: "string \<Rightarrow> string \<Rightarrow> bool" where
  "startswith s pre = (take (length pre) s = pre)"

fun replace_from :: "string \<Rightarrow> string \<Rightarrow> string \<Rightarrow> string" where
  "replace_from old new [] = []"
| "replace_from old new (c # cs) =
     (if old \<noteq> [] \<and> startswith (c # cs) old
      then new @ replace_from old new (drop (length old) (c # cs))
      else c # replace_from old new cs)"

definition replace :: "string \<Rightarrow> string \<Rightarrow> string \<Rightarrow> string" where
  "replace s old new =
     (if old = [] then new @ concat (map (\<lambda>c. c # new) s) else replace_from old new s)"

text \<open>\<open>sub in s\<close>: some suffix of \<open>s\<close> starts with \<open>sub\<close>.\<close>

fun contains :: "string \<Rightarrow> string \<Rightarrow> bool" where
  "contains [] sub = (sub = [])"
| "contains (c # cs) sub = (startswith (c # cs) sub \<or> contains cs sub)"

text \<open>The characters of a decimal numeral.\<close>

definition digits :: "char set" where
  "digits = set ''0123456789''"

text \<open>The slice \<open>xs[a:b]\<close> for indices \<open>0 \<le> a\<close> and \<open>0 \<le> b\<close>, and \<open>sep.join(parts)\<close>.\<close>

definition slice :: "'a list \<Rightarrow> nat \<Rightarrow> nat \<Rightarrow> 'a list" where
  "slice xs a b = drop a (take b xs)"

fun join :: "string \<Rightarrow> string list \<Rightarrow> string" where
  "join sep [] = []"
| "join sep [p] = p"
| "join sep (p # q # ps) = p @ sep @ join sep (q # ps)"

text \<open>Float division \<open>a / b\<close>, which raises on a zero divisor.\<close>

datatype py_error = ZeroDivisionError

definition py_truediv :: "rat \<Rightarrow> rat \<Rightarrow> py_error + rat" where
  "py_truediv a b = (if b = 0 then Inl ZeroDivisionError else Inr (a / b))"

section \<open>The equation synthesizer\<close>

text \<open>
  \<open>generate_valid_equation_system\<close> is the same function in the three generator files, up to
  the braces that \<open>Hannah/generate_equation_system.py\<close> puts around each equation.

  \<open>weighted_random\<close> returns \<open>random.choices(values, weights=weights, k=1)[0]\<close>: one element
  of \<open>values = list(range(-20, 21))\<close>. The random source is modelled as the sequence of
  positions that successive calls of \<open>random.choices\<close> select, together with the number of
  draws made so far; the weights only shape the distribution of those positions.
\<close>

type_synonym random_source = "nat \<Rightarrow> nat"

definition vals :: "int list" where
  "vals = [-20..20]"

definition weighted_random :: "random_source \<Rightarrow> nat \<Rightarrow> int \<times> nat" where
  "weighted_random src k = (vals ! src k, Suc k)"

definition format_term :: "int \<Rightarrow> string \<Rightarrow> string" where
  "format_term val variable =
     (if val = 0 then ''''
      else if val = 1 then variable
      else if val = - 1 then ''-'' @ variable
      else str_int val @ variable)"

text \<open>The six draws of one iteration of the \<open>while True\<close> loop, in the order of the source.\<close>

definition draw_six ::
  "random_source \<Rightarrow> nat \<Rightarrow> (int \<times> int \<times> int \<times> int \<times> int \<times> int) \<times> nat" where
  "draw_six src k =
     (let (x, k) = weighted_random src k;
          (y, k) = weighted_random src k;
          (a1, k) = weighted_random src k;
          (b1, k) = weighted_random src k;
          (a2, k) = weighted_random src k;
          (b2, k) = weighted_random src k
      in ((x, y, a1, b1, a2, b2), k))"

text \<open>
  The rejection loop. It has no iteration bound, so it is a partial function: \<open>None\<close> is
  the run that never leaves the loop.
\<close>

partial_function (option) sample_loop ::
  "random_source \<Rightarrow> nat \<Rightarrow>
     ((int \<times> int \<times> int \<times> int \<times> int \<times> int \<times> int \<times> int) \<times> nat) option" where
  "sample_loop src k =
     (case draw_six src k of ((x, y, a1, b1, a2, b2), k') \<Rightarrow>
        if a1 = 0 \<or> b1 = 0 \<or> a2 = 0 \<or> b2 = 0 then sample_loop src k'
        else
          let c1 = a1 * x + b1 * y;
              c2 = a2 * x + b2 * y
          in if \<bar>c1\<bar> > 120 \<or> \<bar>c2\<bar> > 120 then sample_loop src k'
             else Some ((x, y, a1, b1, a2, b2, c1, c2), k'))"

definition equation_text :: "int \<Rightarrow> int \<Rightarrow> int \<Rightarrow> string" where
  "equation_text a b c =
     format_term a ''x'' @ '' + '' @ format_term b ''y'' @ '' = '' @ str_int c"

definition equation_text_braced :: "int \<Rightarrow> int \<Rightarrow> int \<Rightarrow> string" where
  "equation_text_braced a b c =
     ''{ '' @ format_term a ''x'' @ '' + '' @ format_term b ''y'' @ '' = '' @ str_int c @ '' }''"

text \<open>The body of the \<open>for i in range(len(equations))\<close> loop: four replacements in sequence.\<close>

definition fixups :: "string \<Rightarrow> string" where
  "fixups e =
     (let e = replace e ''+ -'' ''- '';
          e = replace e ''- -'' ''+ '';
          e = replace e '' 1x'' '' x'';
          e = replace e '' 1y'' '' y''
      in e)"

type_synonym equation_system = "string list \<times> (int \<times> int)"

definition generate_valid_equation_system ::
  "random_source \<Rightarrow> nat \<Rightarrow> (equation_system \<times> nat) option" where
  "generate_valid_equation_system src k =
     (case sample_loop src k of
        None \<Rightarrow> None
      | Some ((x, y, a1, b1, a2, b2, c1, c2), k') \<Rightarrow>
          Some ((map fixups [equation_text a1 b1 c1, equation_text a2 b2 c2], (x, y)), k'))"

definition generate_valid_equation_system_hannah ::
  "random_source \<Rightarrow> nat \<Rightarrow> (equation_system \<times> nat) option" where
  "generate_valid_equation_system_hannah src k =
     (case sample_loop src k of
        None \<Rightarrow> None
      | Some ((x, y, a1, b1, a2, b2, c1, c2), k') \<Rightarrow>
          Some ((map fixups [equation_text_braced a1 b1 c1, equation_text_braced a2 b2 c2],
                 (x, y)), k'))"

text \<open>The candidate of the iteration that starts at draw \<open>k\<close>, and the two rejection tests.\<close>

definition accepted :: "int \<times> int \<times> int \<times> int \<times> int \<times> int \<Rightarrow> bool" where
  "accepted t =
     (case t of (x, y, a1, b1, a2, b2) \<Rightarrow>
        \<not> (a1 = 0 \<or> b1 = 0 \<or> a2 = 0 \<or> b2 = 0) \<and>
        \<not> (\<bar>a1 * x + b1 * y\<bar> > 120 \<or> \<bar>a2 * x + b2 * y\<bar> > 120))"

definition with_constants ::
  "int \<times> int \<times> int \<times> int \<times> int \<times> int \<Rightarrow> int \<times> int \<times> int \<times> int \<times> int \<times> int \<times> int \<times> int" where
  "with_constants t =
     (case t of (x, y, a1, b1, a2, b2) \<Rightarrow>
        (x, y, a1, b1, a2, b2, a1 * x + b1 * y, a2 * x + b2 * y))"


text \<open>
  The \<open>while len(all_equations) < total_equations\<close> loop of \<open>create_pdf\<close>, which starts
  from the empty list: \<open>total_equations\<close> calls of the generator, each continuing the random
  source where the previous one stopped.
\<close>

fun generate_all ::
  "(random_source \<Rightarrow> nat \<Rightarrow> (equation_system \<times> nat) option) \<Rightarrow> random_source \<Rightarrow> nat \<Rightarrow> nat \<Rightarrow>
     (equation_system list \<times> nat) option" where
  "generate_all gen src k 0 = Some ([], k)"
| "generate_all gen src k (Suc n) =
     (case gen src k of
        None \<Rightarrow> None
      | Some (e, k') \<Rightarrow>
          (case generate_all gen src k' n of
             None \<Rightarrow> None
           | Some (es, k'') \<Rightarrow> Some (e # es, k'')))"

text \<open>
  The string that the first replacement leaves (lemma \<open>first_replacement\<close> below): the
  sign of a negative second term has become the operator.
\<close>

definition first_fixed :: "int \<Rightarrow> int \<Rightarrow> int \<Rightarrow> string" where
  "first_fixed a b c =
     format_term a ''x'' @
     (if b < 0 then '' - '' @ tl (format_term b ''y'') else '' + '' @ format_term b ''y'') @
     '' = '' @ str_int c"

definition first_fixed_braced :: "int \<Rightarrow> int \<Rightarrow> int \<Rightarrow> string" where
  "first_fixed_braced a b c = ''{ '' @ first_fixed a b c @ '' }''"

text \<open>
  A random source for the examples: the first six draws select position 20 (the value 0,
  so the first candidate is rejected), the next six select the values 2, -1, 3, -2, 1, 5.
\<close>

definition example_source :: random_source where
  "example_source n =
     (if n < 6 then 20 else if n = 6 then 22 else if n = 7 then 19 else if n = 8 then 23
      else if n = 9 then 18 else if n = 10 then 21 else 25)"

section \<open>Page layout\<close>

text \<open>
  The constants of \<open>reportlab\<close> that the layouts use: \<open>inch = 72.0\<close>, \<open>cm = inch / 2.54\<close>,
  \<open>mm = cm * 0.1\<close> and \<open>letter = (8.5 * inch, 11 * inch)\<close>. Lengths are floats in the source;
  here they are exact rationals. Counts (\<open>num_columns\<close>, \<open>equations_per_column\<close>,
  \<open>page_num\<close>) are natural numbers.
\<close>

definition inch :: rat where
  "inch = 72"

definition mm :: rat where
  "mm = inch / (254 / 100) * (1 / 10)"

definition letter :: "rat \<times> rat" where
  "letter = (85 / 10 * inch, 11 * inch)"

text \<open>
  The dictionary returned by \<open>calculate_layout\<close>; the Hannah variant adds
  \<open>equations_per_page\<close>, the dynamic variant \<open>num_columns\<close> and \<open>equations_per_column\<close>.
\<close>

record layout =
  margin :: rat
  column_gap :: rat
  base_y :: rat
  line_height :: rat
  footer_y :: rat
  column_width :: rat

record layout_hannah = layout +
  equations_per_page :: nat

record layout_dynamic = layout +
  num_columns :: nat
  equations_per_column :: int

text \<open>
  One call of \<open>draw_equation(c, x, y, eq_num, equations, line_height)\<close> is recorded as one
  instruction; its \<open>drawString\<close> calls sit at fixed offsets from \<open>(x, y)\<close>. What a page
  shows is the list of these calls, in the order they are made, and the footer string.
\<close>

record instruction =
  eq_num :: nat
  origin_x :: rat
  origin_y :: rat
  equations :: "string list"

record page =
  instructions :: "instruction list"
  footer_text :: string

type_synonym page_state = "instruction list \<times> (int \<times> int) list"

text \<open>
  The footer of every variant:
  \<open>"  ".join([f"{i+1}.({s[0]},{s[1]})" for i, s in enumerate(solutions)])\<close>.
\<close>

definition footer_entry :: "nat \<times> (int \<times> int) \<Rightarrow> string" where
  "footer_entry e =
     (case e of (i, s) \<Rightarrow>
        str_int (int i + 1) @ ''.('' @ str_int (fst s) @ '','' @ str_int (snd s) @ '')'')"

definition footer :: "(int \<times> int) list \<Rightarrow> string" where
  "footer solutions = join ''  '' (map footer_entry (enumerate 0 solutions))"

definition x_positions :: "'a layout_scheme \<Rightarrow> nat \<Rightarrow> rat list" where
  "x_positions L ncols =
     map (\<lambda>i. margin L + of_nat i * (column_width L + column_gap L)) [0..<ncols]"

subsection \<open>\<open>Hannah/generate_equation_system.py\<close>\<close>

definition calculate_layout_hannah :: "nat \<Rightarrow> nat \<Rightarrow> rat \<Rightarrow> rat \<Rightarrow> py_error + layout_hannah" where
  "calculate_layout_hannah ncols epc p_margin p_column_gap =
     (case letter of (page_width, page_height) \<Rightarrow>
        case py_truediv (page_width - 2 * p_margin - (of_nat ncols - 1) * p_column_gap)
               (of_nat ncols) of
          Inl e \<Rightarrow> Inl e
        | Inr w \<Rightarrow>
            Inr \<lparr>margin = 15 * mm, column_gap = 10 * mm, base_y = page_height - 20 * mm,
                 line_height = 7 * mm, footer_y = 15 * mm, column_width = w,
                 equations_per_page = ncols * epc\<rparr>)"

definition draw_equation_hannah ::
  "rat \<Rightarrow> rat \<Rightarrow> nat \<Rightarrow> string list \<Rightarrow> rat \<Rightarrow> instruction \<times> rat" where
  "draw_equation_hannah x y n eqs lh =
     (\<lparr>eq_num = n, origin_x = x, origin_y = y, equations = eqs\<rparr>,
      y - (of_nat (length eqs) + 1) * lh)"

text \<open>
  The loop \<open>for idx in range(params["equations_per_column"])\<close> of \<open>print_page\<close>, over the
  indices still to visit. \<open>print_page\<close> is called with \<open>page_num = p + 1\<close>.
\<close>

fun column_loop_hannah ::
  "layout_hannah \<Rightarrow> nat \<Rightarrow> equation_system list \<Rightarrow> nat \<Rightarrow> nat \<Rightarrow> rat \<Rightarrow> nat list \<Rightarrow> rat \<Rightarrow>
     page_state \<Rightarrow> page_state" where
  "column_loop_hannah L epc eqns page_num col x [] y st = st"
| "column_loop_hannah L epc eqns page_num col x (idx # idxs) y (canvas, solutions) =
     (let n = (page_num - 1) * equations_per_page L + col * epc + idx + 1
      in if n - 1 \<ge> length eqns then (canvas, solutions)
         else
           let (equations_obj, solution) = eqns ! (n - 1);
               solutions = solutions @ [solution];
               (ins, y) = draw_equation_hannah x y n equations_obj (line_height L)
           in column_loop_hannah L epc eqns page_num col x idxs y (canvas @ [ins], solutions))"

definition print_page ::
  "nat \<Rightarrow> nat \<Rightarrow> layout_hannah \<Rightarrow> equation_system list \<Rightarrow> nat \<Rightarrow> page" where
  "print_page ncols epc L eqns page_num =
     (let (canvas, solutions) =
            fold (\<lambda>col. column_loop_hannah L epc eqns page_num col (x_positions L ncols ! col)
                          [0..<epc] (replicate ncols (base_y L) ! col))
              [0..<ncols] ([], [])
      in \<lparr>instructions = canvas, footer_text = footer solutions\<rparr>)"

definition pages_hannah :: "layout_hannah \<Rightarrow> equation_system list \<Rightarrow> nat \<Rightarrow> nat \<Rightarrow> nat \<Rightarrow> page list" where
  "pages_hannah L all_equations ncols epc npages =
     map (\<lambda>p.
            let start_idx = p * equations_per_page L;
                end_idx = (p + 1) * equations_per_page L;
                page_equations = slice all_equations start_idx end_idx
            in print_page ncols epc L page_equations (p + 1))
       [0..<npages]"

text \<open>What \<open>create_pdf\<close> draws once \<open>all_equations\<close> exists.\<close>

definition document_hannah ::
  "nat \<Rightarrow> nat \<Rightarrow> nat \<Rightarrow> equation_system list \<Rightarrow> py_error + page list" where
  "document_hannah ncols epc npages all_equations =
     (case calculate_layout_hannah ncols epc (15 * mm) (10 * mm) of
        Inl e \<Rightarrow> Inl e
      | Inr L \<Rightarrow> Inr (pages_hannah L all_equations ncols epc npages))"

definition create_pdf_hannah ::
  "random_source \<Rightarrow> nat \<Rightarrow> nat \<Rightarrow> nat \<Rightarrow> (py_error + page list) option" where
  "create_pdf_hannah src ncols epc npages =
     (let total_equations = ncols * epc * npages
      in case generate_all generate_valid_equation_system_hannah src 0 total_equations of
           None \<Rightarrow> None
         | Some (all_equations, k) \<Rightarrow> Some (document_hannah ncols epc npages all_equations))"

subsection \<open>\<open>src/math/generate_liner_equation_system.py\<close>\<close>

definition calculate_layout_fixed :: "nat \<Rightarrow> rat \<Rightarrow> rat \<Rightarrow> py_error + layout" where
  "calculate_layout_fixed ncols p_margin p_column_gap =
     (case letter of (page_width, page_height) \<Rightarrow>
        case py_truediv (page_width - 2 * p_margin - (of_nat ncols - 1) * p_column_gap)
               (of_nat ncols) of
          Inl e \<Rightarrow> Inl e
        | Inr w \<Rightarrow>
            Inr \<lparr>margin = 15 * mm, column_gap = 10 * mm, base_y = page_height - 25 * mm,
                 line_height = 7 * mm, footer_y = 15 * mm, column_width = w\<rparr>)"

definition draw_equation_fixed ::
  "rat \<Rightarrow> rat \<Rightarrow> nat \<Rightarrow> string list \<Rightarrow> rat \<Rightarrow> instruction \<times> rat" where
  "draw_equation_fixed x y n eqs lh =
     (\<lparr>eq_num = n, origin_x = x, origin_y = y, equations = eqs\<rparr>, y - 35 / 10 * lh)"

text \<open>The loop \<open>for idx in range(equations_per_column)\<close> of \<open>create_pdf\<close>, with its two exits.\<close>

fun column_loop_fixed ::
  "layout \<Rightarrow> nat \<Rightarrow> equation_system list \<Rightarrow> nat \<Rightarrow> nat \<Rightarrow> rat \<Rightarrow> nat list \<Rightarrow> rat \<Rightarrow>
     page_state \<Rightarrow> page_state" where
  "column_loop_fixed L epc page_equations start_idx col x [] y st = st"
| "column_loop_fixed L epc page_equations start_idx col x (idx # idxs) y (canvas, solutions) =
     (let eq_index = col * epc + idx
      in if eq_index \<ge> length page_equations then (canvas, solutions)
         else
           let n = start_idx + col * epc + idx + 1;
               (eqs, solution) = page_equations ! eq_index;
               solutions = solutions @ [solution];
               (ins, new_y) = draw_equation_fixed x y n eqs (line_height L)
           in if new_y < footer_y L + 30 * mm then (canvas @ [ins], solutions)
              else column_loop_fixed L epc page_equations start_idx col x idxs new_y
                     (canvas @ [ins], solutions))"

definition page_fixed :: "layout \<Rightarrow> equation_system list \<Rightarrow> nat \<Rightarrow> nat \<Rightarrow> nat \<Rightarrow> page" where
  "page_fixed L all_equations ncols epc p =
     (let start_idx = p * ncols * epc;
          end_idx = start_idx + ncols * epc;
          page_equations = slice all_equations start_idx end_idx;
          (canvas, solutions) =
            fold (\<lambda>col. column_loop_fixed L epc page_equations start_idx col
                          (x_positions L ncols ! col) [0..<epc] (replicate ncols (base_y L) ! col))
              [0..<ncols] ([], [])
      in \<lparr>instructions = canvas, footer_text = footer solutions\<rparr>)"

text \<open>
  What \<open>create_pdf\<close> draws once \<open>all_equations\<close> exists and the font is registered.
  \<open>font_ok\<close> says whether \<open>pdfmetrics.registerFont\<close> succeeds; when it does not,
  \<open>create_pdf\<close> prints a message and returns without a document.
\<close>

definition document_fixed ::
  "nat \<Rightarrow> nat \<Rightarrow> nat \<Rightarrow> equation_system list \<Rightarrow> py_error + page list" where
  "document_fixed ncols epc npages all_equations =
     (case calculate_layout_fixed ncols (15 * mm) (10 * mm) of
        Inl e \<Rightarrow> Inl e
      | Inr L \<Rightarrow> Inr (map (page_fixed L all_equations ncols epc) [0..<npages]))"

definition create_pdf_fixed ::
  "random_source \<Rightarrow> bool \<Rightarrow> nat \<Rightarrow> nat \<Rightarrow> nat \<Rightarrow> (py_error + page list option) option" where
  "create_pdf_fixed src font_ok ncols epc npages =
     (let total_equations = ncols * epc * npages
      in case generate_all generate_valid_equation_system src 0 total_equations of
           None \<Rightarrow> None
         | Some (all_equations, k) \<Rightarrow>
             Some (if \<not> font_ok then Inr None
                   else case document_fixed ncols epc npages all_equations of
                          Inl e \<Rightarrow> Inl e
                        | Inr pgs \<Rightarrow> Inr (Some pgs)))"

subsection \<open>\<open>src/math/generate_liner_equation_system.1.py\<close>\<close>

definition calculate_layout_dynamic :: "nat \<Rightarrow> py_error + layout_dynamic" where
  "calculate_layout_dynamic ncols =
     (case letter of (page_width, page_height) \<Rightarrow>
        let l_margin = 15 * mm;
            l_column_gap = 10 * mm;
            l_base_y = page_height - 25 * mm;
            l_line_height = 7 * mm;
            l_footer_y = 15 * mm
        in case py_truediv (page_width - 2 * l_margin - (of_nat ncols - 1) * l_column_gap)
                  (of_nat ncols) of
             Inl e \<Rightarrow> Inl e
           | Inr w \<Rightarrow>
               let available_height = l_base_y - l_footer_y;
                   equation_height = 2 * l_line_height
               in Inr \<lparr>margin = l_margin, column_gap = l_column_gap, base_y = l_base_y,
                       line_height = l_line_height, footer_y = l_footer_y, column_width = w,
                       num_columns = ncols,
                       equations_per_column = \<lfloor>available_height / equation_height\<rfloor>\<rparr>)"

definition draw_equation_dynamic ::
  "rat \<Rightarrow> rat \<Rightarrow> nat \<Rightarrow> string list \<Rightarrow> rat \<Rightarrow> instruction \<times> rat" where
  "draw_equation_dynamic x y n eqs lh =
     (\<lparr>eq_num = n, origin_x = x, origin_y = y, equations = eqs\<rparr>, y - 2 * lh)"

text \<open>\<open>remaining_space / spacing_count if spacing_count > 0 else 0\<close>.\<close>

definition spacing_height_of :: "rat \<Rightarrow> nat \<Rightarrow> py_error + rat" where
  "spacing_height_of remaining_space spacing_count =
     (if spacing_count > 0 then py_truediv remaining_space (of_nat spacing_count) else Inr 0)"

text \<open>
  The loop \<open>for idx in range(actual_count)\<close>; the boundary check comes after the drawing.
  The check compares exact rationals here and accumulated doubles in the source: the two
  agree unless \<open>y\<close> comes within rounding of \<open>footer_y + 15mm\<close>.
\<close>

fun item_loop_dynamic ::
  "layout_dynamic \<Rightarrow> equation_system list \<Rightarrow> nat \<Rightarrow> nat \<Rightarrow> rat \<Rightarrow> rat \<Rightarrow> nat list \<Rightarrow> rat \<Rightarrow>
     page_state \<Rightarrow> page_state" where
  "item_loop_dynamic L col_data start_idx col_start x spacing_height [] y st = st"
| "item_loop_dynamic L col_data start_idx col_start x spacing_height (idx # idxs) y
       (canvas, solutions) =
     (let eq_index = col_start + idx;
          (eqs, solution) = col_data ! idx;
          n = start_idx + eq_index + 1;
          solutions = solutions @ [solution];
          (ins, new_y) = draw_equation_dynamic x y n eqs (line_height L);
          y = new_y - spacing_height
      in if y < footer_y L + 15 * mm then (canvas @ [ins], solutions)
         else item_loop_dynamic L col_data start_idx col_start x spacing_height idxs y
                (canvas @ [ins], solutions))"

text \<open>The body of \<open>for col in range(num_columns)\<close>.\<close>

definition column_dynamic ::
  "layout_dynamic \<Rightarrow> equation_system list \<Rightarrow> nat \<Rightarrow> nat \<Rightarrow> nat \<Rightarrow> nat \<Rightarrow> page_state \<Rightarrow>
     py_error + page_state" where
  "column_dynamic L page_data start_idx ncols epc col st =
     (let x = x_positions L ncols ! col;
          y = replicate ncols (base_y L) ! col;
          col_start = col * epc;
          col_end = (col + 1) * epc;
          col_data = slice page_data col_start col_end;
          actual_count = length col_data
      in if actual_count = 0 then Inr st
         else
           let total_available_space = y - footer_y L - 10 * mm;
               equation_height = 2 * line_height L;
               total_equations_height = of_nat actual_count * equation_height;
               remaining_space = total_available_space - total_equations_height;
               spacing_count = actual_count
           in case spacing_height_of remaining_space spacing_count of
                Inl e \<Rightarrow> Inl e
              | Inr spacing_height \<Rightarrow>
                  Inr (item_loop_dynamic L col_data start_idx col_start x spacing_height
                         [0..<actual_count] y st))"

fun columns_dynamic ::
  "layout_dynamic \<Rightarrow> equation_system list \<Rightarrow> nat \<Rightarrow> nat \<Rightarrow> nat \<Rightarrow> nat list \<Rightarrow> page_state \<Rightarrow>
     py_error + page_state" where
  "columns_dynamic L page_data start_idx ncols epc [] st = Inr st"
| "columns_dynamic L page_data start_idx ncols epc (col # cols) st =
     (case column_dynamic L page_data start_idx ncols epc col st of
        Inl e \<Rightarrow> Inl e
      | Inr st' \<Rightarrow> columns_dynamic L page_data start_idx ncols epc cols st')"

definition page_dynamic ::
  "layout_dynamic \<Rightarrow> equation_system list \<Rightarrow> nat \<Rightarrow> nat \<Rightarrow> nat \<Rightarrow> py_error + page" where
  "page_dynamic L all_equations ncols epc p =
     (let start_idx = p * ncols * epc;
          end_idx = start_idx + ncols * epc;
          page_data = slice all_equations start_idx end_idx
      in case columns_dynamic L page_data start_idx ncols epc [0..<ncols] ([], []) of
           Inl e \<Rightarrow> Inl e
         | Inr (canvas, solutions) \<Rightarrow>
             Inr \<lparr>instructions = canvas, footer_text = footer solutions\<rparr>)"

fun pages_dynamic ::
  "layout_dynamic \<Rightarrow> equation_system list \<Rightarrow> nat \<Rightarrow> nat \<Rightarrow> nat list \<Rightarrow> py_error + page list" where
  "pages_dynamic L all_equations ncols epc [] = Inr []"
| "pages_dynamic L all_equations ncols epc (p # ps) =
     (case page_dynamic L all_equations ncols epc p of
        Inl e \<Rightarrow> Inl e
      | Inr pg \<Rightarrow>
          (case pages_dynamic L all_equations ncols epc ps of
             Inl e \<Rightarrow> Inl e
           | Inr pgs \<Rightarrow> Inr (pg # pgs)))"

text \<open>
  What \<open>create_pdf\<close> draws once the font is registered and \<open>all_equations\<close> exists.
\<close>

definition document_dynamic ::
  "nat \<Rightarrow> nat \<Rightarrow> nat \<Rightarrow> equation_system list \<Rightarrow> py_error + page list" where
  "document_dynamic ncols epc npages all_equations =
     (case calculate_layout_dynamic ncols of
        Inl e \<Rightarrow> Inl e
      | Inr L \<Rightarrow> pages_dynamic L all_equations ncols epc [0..<npages])"

definition create_pdf_dynamic ::
  "random_source \<Rightarrow> bool \<Rightarrow> nat \<Rightarrow> nat \<Rightarrow> nat \<Rightarrow> (py_error + page list option) option" where
  "create_pdf_dynamic src font_ok ncols epc npages =
     (if \<not> font_ok then Some (Inr None)
      else case calculate_layout_dynamic ncols of
             Inl e \<Rightarrow> Some (Inl e)
           | Inr L \<Rightarrow>
               let total_equations = ncols * epc * npages
               in case generate_all generate_valid_equation_system src 0 total_equations of
                    None \<Rightarrow> None
                  | Some (all_equations, k) \<Rightarrow>
                      Some (case document_dynamic ncols epc npages all_equations of
                              Inl e \<Rightarrow> Inl e
                            | Inr pgs \<Rightarrow> Inr (Some pgs)))"

section \<open>Auxiliary notions for the proofs\<close>

text \<open>The numbers drawn beside the systems, page by page, and the footers.\<close>

definition drawn_numbers :: "py_error + page list \<Rightarrow> py_error + nat list list" where
  "drawn_numbers r = map_sum id (map (\<lambda>pg. map eq_num (instructions pg))) r"

definition footers :: "py_error + page list \<Rightarrow> py_error + string list" where
  "footers r = map_sum id (map footer_text) r"

text \<open>
  Example input: \<open>n\<close> systems, the \<open>i\<close>-th (from 0) with the solution \<open>(i + 1, -i)\<close>.
\<close>

definition sample_systems :: "nat \<Rightarrow> equation_system list" where
  "sample_systems n =
     map (\<lambda>i. ([''x + y = 1'', ''x - y = '' @ str_int (2 * int i + 1)], (int i + 1, - int i)))
       [0..<n]"

text \<open>
  A page state \<open>(canvas, solutions)\<close> is linked to the list \<open>data\<close> when every instruction
  drawn shows the equations of the item \<open>data[eq_num - off]\<close> and the solutions collected
  are, in the same order, the solutions of those items.
\<close>

definition linked :: "equation_system list \<Rightarrow> nat \<Rightarrow> page_state \<Rightarrow> bool" where
  "linked data off st =
     (case st of (canvas, sols) \<Rightarrow>
        sols = map (\<lambda>d. snd (data ! (eq_num d - off))) canvas \<and>
        (\<forall>d\<in>set canvas. off \<le> eq_num d \<and> eq_num d - off < length data \<and>
           equations d = fst (data ! (eq_num d - off))))"

section \<open>Properties of the synthesizer\<close>

lemma draw_six_pos: "snd (draw_six src k) = k + 6"
  by (simp add: draw_six_def weighted_random_def)

lemma sample_loop_step:
  "sample_loop src k =
     (if accepted (fst (draw_six src k))
      then Some (with_constants (fst (draw_six src k)), k + 6)
      else sample_loop src (k + 6))"
proof -
  obtain x y a1 b1 a2 b2 k' where d: "draw_six src k = ((x, y, a1, b1, a2, b2), k')"
    by (cases "draw_six src k") auto
  have k': "k' = k + 6"
    using draw_six_pos [of src k] d by simp
  show ?thesis
    by (subst sample_loop.simps)
      (simp add: d k' accepted_def with_constants_def Let_def)
qed

lemma vals_nth: "i < 41 \<Longrightarrow> vals ! i = int i - 20"
  unfolding vals_def by (subst nth_upto) simp_all

lemma length_vals: "length vals = 41"
  by (simp add: vals_def)

lemma draw_six_range:
  assumes "\<forall>n. src n < length vals"
    and "draw_six src k = ((x, y, a1, b1, a2, b2), k')"
  shows "{x, y, a1, b1, a2, b2} \<subseteq> {- 20..20}"
proof -
  have r: "- 20 \<le> vals ! src n \<and> vals ! src n \<le> 20" for n
    using assms(1) [rule_format, of n] by (simp add: length_vals vals_nth)
  from assms(2) show ?thesis
    using r by (auto simp: draw_six_def weighted_random_def)
qed

lemma sample_loop_first_accepted:
  "accepted (fst (draw_six src (k + 6 * n))) \<Longrightarrow>
   \<exists>m\<le>n. accepted (fst (draw_six src (k + 6 * m))) \<and>
          (\<forall>j<m. \<not> accepted (fst (draw_six src (k + 6 * j)))) \<and>
          sample_loop src k =
            Some (with_constants (fst (draw_six src (k + 6 * m))), k + 6 * m + 6)"
proof (induction n arbitrary: k)
  case 0
  then show ?case
    by (subst sample_loop_step) simp
next
  case (Suc n)
  show ?case
  proof (cases "accepted (fst (draw_six src k))")
    case True
    then have "sample_loop src k = Some (with_constants (fst (draw_six src k)), k + 6)"
      by (subst sample_loop_step) simp
    with True show ?thesis
      by (intro exI [of _ 0]) simp
  next
    case False
    from Suc.prems have "accepted (fst (draw_six src ((k + 6) + 6 * n)))"
      by (simp add: algebra_simps)
    from Suc.IH [OF this] obtain m where m: "m \<le> n"
      "accepted (fst (draw_six src (k + 6 + 6 * m)))"
      "\<forall>j<m. \<not> accepted (fst (draw_six src (k + 6 + 6 * j)))"
      "sample_loop src (k + 6) =
         Some (with_constants (fst (draw_six src (k + 6 + 6 * m))), k + 6 + 6 * m + 6)"
      by blast
    have shift: "k + 6 + 6 * j = k + 6 * Suc j" for j
      by simp
    have "\<forall>j<Suc m. \<not> accepted (fst (draw_six src (k + 6 * j)))"
    proof (intro allI impI)
      fix j assume "j < Suc m"
      show "\<not> accepted (fst (draw_six src (k + 6 * j)))"
      proof (cases j)
        case 0
        with False show ?thesis by simp
      next
        case (Suc i)
        with \<open>j < Suc m\<close> have "i < m" by simp
        have e: "k + 6 * j = k + 6 + 6 * i"
          using Suc by simp
        from \<open>i < m\<close> m(3) show ?thesis
          unfolding e by blast
      qed
    qed
    moreover have "sample_loop src k =
        Some (with_constants (fst (draw_six src (k + 6 * Suc m))), k + 6 * Suc m + 6)"
      using False m(4) by (subst sample_loop_step) (simp only: shift if_False)
    moreover have "accepted (fst (draw_six src (k + 6 * Suc m)))"
      using m(2) by (simp only: shift)
    ultimately show ?thesis
      using m(1) by (intro exI [of _ "Suc m"]) simp
  qed
qed

lemma sample_loop_Some:
  assumes "sample_loop src k = Some (t, k')"
  shows "\<exists>n. t = with_constants (fst (draw_six src (k + 6 * n))) \<and>
             accepted (fst (draw_six src (k + 6 * n))) \<and> k' = k + 6 * n + 6"
proof -
  have "\<exists>n. fst r = with_constants (fst (draw_six src (k + 6 * n))) \<and>
            accepted (fst (draw_six src (k + 6 * n))) \<and> snd r = k + 6 * n + 6"
    if "sample_loop src k = Some r" for r
    using that
  proof (induct rule: sample_loop.raw_induct [rotated 1, consumes 1, case_names step])
    case (step sample_loop' src k r)
    note 1 = step
    obtain x y a1 b1 a2 b2 k1 where d: "draw_six src k = ((x, y, a1, b1, a2, b2), k1)"
      by (cases "draw_six src k") auto
    have k1: "k1 = k + 6"
      using draw_six_pos [of src k] d by simp
    show ?case
    proof (cases "accepted (fst (draw_six src k))")
      case True
      with 1(2) have "r = (with_constants (fst (draw_six src k)), k + 6)"
        by (simp add: d k1 accepted_def with_constants_def Let_def split: if_splits)
      with True show ?thesis
        by (intro exI [of _ 0]) simp
    next
      case False
      with 1(2) have "sample_loop' src (k + 6) = Some r"
        by (auto simp: d k1 accepted_def Let_def split: if_splits)
      from 1(1) [OF this] obtain n where
        "fst r = with_constants (fst (draw_six src (k + 6 + 6 * n)))"
        "accepted (fst (draw_six src (k + 6 + 6 * n)))" "snd r = k + 6 + 6 * n + 6"
        by blast
      then show ?thesis
        by (intro exI [of _ "Suc n"]) (simp add: algebra_simps)
    qed
  qed
  from this [OF assms] show ?thesis by simp
qed


lemma accepted_props:
  assumes "accepted (x, y, a1, b1, a2, b2)"
  shows "a1 \<noteq> 0 \<and> b1 \<noteq> 0 \<and> a2 \<noteq> 0 \<and> b2 \<noteq> 0 \<and>
         \<bar>a1 * x + b1 * y\<bar> \<le> 120 \<and> \<bar>a2 * x + b2 * y\<bar> \<le> 120"
  using assms by (auto simp: accepted_def)

lemma sample_loop_valid:
  assumes src: "\<forall>n. src n < length vals"
    and run: "sample_loop src k = Some ((x, y, a1, b1, a2, b2, c1, c2), k')"
  shows "a1 * x + b1 * y = c1 \<and> a2 * x + b2 * y = c2 \<and>
         a1 \<noteq> 0 \<and> b1 \<noteq> 0 \<and> a2 \<noteq> 0 \<and> b2 \<noteq> 0 \<and>
         {a1, b1, a2, b2} \<subseteq> {- 20..20} \<and> {x, y} \<subseteq> {- 20..20} \<and>
         \<bar>c1\<bar> \<le> 120 \<and> \<bar>c2\<bar> \<le> 120"
proof -
  from sample_loop_Some [OF run] obtain n where
    t: "(x, y, a1, b1, a2, b2, c1, c2) = with_constants (fst (draw_six src (k + 6 * n)))"
    and acc: "accepted (fst (draw_six src (k + 6 * n)))"
    by blast
  obtain x' y' a1' b1' a2' b2' k1 where
    d: "draw_six src (k + 6 * n) = ((x', y', a1', b1', a2', b2'), k1)"
    by (cases "draw_six src (k + 6 * n)") auto
  from t d have eq: "x' = x" "y' = y" "a1' = a1" "b1' = b1" "a2' = a2" "b2' = b2"
    "c1 = a1 * x + b1 * y" "c2 = a2 * x + b2 * y"
    by (simp_all add: with_constants_def)
  from draw_six_range [OF src d] have rng: "{x, y, a1, b1, a2, b2} \<subseteq> {- 20..20}"
    by (simp add: eq)
  from acc d have "accepted (x, y, a1, b1, a2, b2)"
    by (simp add: eq)
  from accepted_props [OF this] rng show ?thesis
    by (simp add: eq)
qed

subsection \<open>Evaluating the example\<close>

lemma startswith_Nil [simp]: "startswith s [] = True"
  by (simp add: startswith_def)

lemma startswith_Nil_Cons [simp]: "startswith [] (d # p) = False"
  by (simp add: startswith_def)

lemma startswith_Cons_Cons [simp]: "startswith (c # s) (d # p) = (c = d \<and> startswith s p)"
  by (auto simp: startswith_def)

lemma str_nat_small: "n < 10 \<Longrightarrow> str_nat n = [digit_char n]"
  by (subst str_nat.simps) simp

lemma str_nat_digit:
  "str_nat 0 = ''0''" "str_nat 1 = ''1''" "str_nat 2 = ''2''" "str_nat 3 = ''3''"
  "str_nat 4 = ''4''" "str_nat 5 = ''5''" "str_nat 6 = ''6''" "str_nat 7 = ''7''"
  "str_nat 8 = ''8''" "str_nat 9 = ''9''"
  by (simp_all add: str_nat_small digit_char_def)

lemma example_source_ok: "\<forall>n. example_source n < length vals"
  by (simp add: example_source_def length_vals)

lemma example_draws:
  "draw_six example_source 0 = ((0, 0, 0, 0, 0, 0), 6)"
  "draw_six example_source 6 = ((2, - 1, 3, - 2, 1, 5), 12)"
  by (simp_all add: draw_six_def weighted_random_def example_source_def vals_nth)

lemma example_loop:
  "sample_loop example_source 0 = Some ((2, - 1, 3, - 2, 1, 5, 8, - 3), 12)"
  by (simp add: sample_loop_step [of example_source 0] sample_loop_step [of example_source 6]
      example_draws accepted_def with_constants_def)

lemma example_generate:
  "generate_valid_equation_system example_source 0 =
     Some (([''3x - 2y = 8'', ''x + 5y = -3''], (2, - 1)), 12)"
  by (simp add: generate_valid_equation_system_def example_loop fixups_def replace_def
      equation_text_def format_term_def str_int_def str_nat_digit)

lemma example_generate_hannah:
  "generate_valid_equation_system_hannah example_source 0 =
     Some (([''{ 3x - 2y = 8 }'', ''{ x + 5y = -3 }''], (2, - 1)), 12)"
  by (simp add: generate_valid_equation_system_hannah_def example_loop fixups_def replace_def
      equation_text_braced_def format_term_def str_int_def str_nat_digit)

subsection \<open>Decimal numerals\<close>

lemma digit_char_digits: "d < 10 \<Longrightarrow> digit_char d \<in> digits"
  by (simp add: digit_char_def digits_def nth_Cons')

lemma str_nat_digits: "set (str_nat n) \<subseteq> digits"
proof (induction n rule: str_nat.induct)
  case (1 n)
  show ?case
  proof (cases "n < 10")
    case True
    then show ?thesis by (simp add: str_nat_small digit_char_digits)
  next
    case False
    with 1 show ?thesis by (subst str_nat.simps) (simp add: digit_char_digits)
  qed
qed

lemma str_nat_nonempty: "str_nat n \<noteq> []"
  by (subst str_nat.simps) simp

lemma str_nat_Cons: "\<exists>d ds. str_nat n = d # ds \<and> d \<in> digits \<and> set ds \<subseteq> digits"
  using str_nat_digits [of n] str_nat_nonempty [of n] by (cases "str_nat n") auto

lemma digit_char_one: "d < 10 \<Longrightarrow> digit_char d = CHR ''1'' \<longleftrightarrow> d = 1"
proof -
  assume "d < 10"
  then have "d \<in> {0, 1, 2, 3, 4, 5, 6, 7, 8, 9}" by auto
  then show ?thesis by (auto simp: digit_char_def)
qed

lemma str_nat_large: "\<not> n < 10 \<Longrightarrow> \<exists>d e es. str_nat n = d # e # es \<and> e \<in> digits"
proof -
  assume n: "\<not> n < 10"
  obtain d ds where d: "str_nat (n div 10) = d # ds"
    using str_nat_nonempty [of "n div 10"] by (cases "str_nat (n div 10)") auto
  have e: "str_nat n = d # ds @ [digit_char (n mod 10)]"
    using n d by (subst str_nat.simps) simp
  have "set (str_nat n) \<subseteq> digits" by (rule str_nat_digits)
  with e show ?thesis by (cases ds) auto
qed

lemma nondigit [simp]:
  "CHR ''-'' \<notin> digits" "CHR ''+'' \<notin> digits" "CHR '' '' \<notin> digits" "CHR ''x'' \<notin> digits"
  "CHR ''y'' \<notin> digits" "CHR ''='' \<notin> digits" "CHR ''}'' \<notin> digits" "CHR ''{'' \<notin> digits"
  by (simp_all add: digits_def)

subsection \<open>Scanning past a numeral\<close>

lemma startswith_str_nat_nondigit [simp]:
  "d \<notin> digits \<Longrightarrow> startswith (str_nat n @ v) (d # p) = False"
  "d \<notin> digits \<Longrightarrow> startswith (str_nat n) (d # p) = False"
  using str_nat_Cons [of n] by auto

lemma startswith_str_nat_one:
  assumes "e \<notin> digits"
  shows "startswith (str_nat n @ v) (CHR ''1'' # e # p) = (n = 1 \<and> startswith v (e # p))"
proof (cases "n < 10")
  case True
  then show ?thesis by (simp add: str_nat_small digit_char_one)
next
  case False
  then obtain d e' es where "str_nat n = d # e' # es" "e' \<in> digits"
    using str_nat_large by blast
  with assms False show ?thesis by auto
qed

lemma startswith_str_nat_one_end:
  assumes "e \<notin> digits"
  shows "startswith (str_nat n) (CHR ''1'' # e # p) = False"
  using startswith_str_nat_one [OF assms, of n "[]" p] by simp

lemma replace_from_skip:
  "old \<noteq> [] \<Longrightarrow> hd old \<notin> set u \<Longrightarrow> replace_from old new (u @ v) = u @ replace_from old new v"
proof (induction u)
  case Nil
  then show ?case by simp
next
  case (Cons c u)
  then obtain d p where "old = d # p" by (cases old) auto
  with Cons show ?case by auto
qed

lemma contains_skip:
  "sub \<noteq> [] \<Longrightarrow> hd sub \<notin> set u \<Longrightarrow> contains (u @ v) sub = contains v sub"
proof (induction u)
  case Nil
  then show ?case by simp
next
  case (Cons c u)
  then obtain d p where "sub = d # p" by (cases sub) auto
  with Cons show ?case by auto
qed

lemma replace_from_str_nat [simp]:
  "old \<noteq> [] \<Longrightarrow> hd old \<notin> digits \<Longrightarrow>
     replace_from old new (str_nat n @ v) = str_nat n @ replace_from old new v"
  "old \<noteq> [] \<Longrightarrow> hd old \<notin> digits \<Longrightarrow> replace_from old new (str_nat n) = str_nat n"
  using replace_from_skip [of old "str_nat n" new v] replace_from_skip [of old "str_nat n" new "[]"]
    str_nat_digits [of n] by auto

lemma contains_str_nat [simp]:
  "sub \<noteq> [] \<Longrightarrow> hd sub \<notin> digits \<Longrightarrow> contains (str_nat n @ v) sub = contains v sub"
  "sub \<noteq> [] \<Longrightarrow> hd sub \<notin> digits \<Longrightarrow> contains (str_nat n) sub = False"
  using contains_skip [of sub "str_nat n" v] contains_skip [of sub "str_nat n" "[]"]
    str_nat_digits [of n] by auto

lemma not_contains_replace:
  "\<not> contains s old \<Longrightarrow> replace s old new = s"
proof -
  have "\<not> contains s old \<Longrightarrow> replace_from old new s = s"
    by (induction s) auto
  moreover have "\<not> contains s old \<Longrightarrow> old \<noteq> []"
    by (cases s) auto
  ultimately show "\<not> contains s old \<Longrightarrow> replace s old new = s"
    by (simp add: replace_def)
qed

subsection \<open>The shapes of a formatted equation\<close>

lemma format_term_cases:
  "format_term a v =
     (if a = 0 then [] else if a = 1 then v else if a = - 1 then CHR ''-'' # v
      else if 0 < a then str_nat (nat a) @ v else CHR ''-'' # str_nat (nat (- a)) @ v)"
  by (simp add: format_term_def str_int_def)

lemmas scan_simps =
  replace_def equation_text_def equation_text_braced_def format_term_cases str_int_def
  startswith_str_nat_one startswith_str_nat_one_end

lemma first_replacement:
  "replace (equation_text a b c) ''+ -'' ''- '' = first_fixed a b c"
  "replace (equation_text_braced a b c) ''+ -'' ''- '' = first_fixed_braced a b c"
  by (auto simp add: first_fixed_def first_fixed_braced_def scan_simps)

lemma not_contains_before:
  "\<not> contains (equation_text a b c) ''- -''"
  "\<not> contains (equation_text a b c) '' 1x''"
  "\<not> contains (equation_text a b c) '' 1y''"
  "\<not> contains (equation_text_braced a b c) ''- -''"
  "\<not> contains (equation_text_braced a b c) '' 1x''"
  "\<not> contains (equation_text_braced a b c) '' 1y''"
  by (auto simp add: scan_simps)

lemma not_contains_after:
  "\<not> contains (first_fixed a b c) ''+ -''"
  "\<not> contains (first_fixed a b c) ''- -''"
  "\<not> contains (first_fixed a b c) '' 1x''"
  "\<not> contains (first_fixed a b c) '' 1y''"
  "\<not> contains (first_fixed_braced a b c) ''+ -''"
  "\<not> contains (first_fixed_braced a b c) ''- -''"
  "\<not> contains (first_fixed_braced a b c) '' 1x''"
  "\<not> contains (first_fixed_braced a b c) '' 1y''"
  by (auto simp add: first_fixed_def first_fixed_braced_def scan_simps)

lemma fixups_plain: "fixups (equation_text a b c) = first_fixed a b c"
  by (simp add: fixups_def first_replacement not_contains_after not_contains_replace)

lemma fixups_braced: "fixups (equation_text_braced a b c) = first_fixed_braced a b c"
  by (simp add: fixups_def first_replacement not_contains_after not_contains_replace)

lemma fixups_fixed:
  "fixups (first_fixed a b c) = first_fixed a b c"
  "fixups (first_fixed_braced a b c) = first_fixed_braced a b c"
  by (simp_all add: fixups_def not_contains_after not_contains_replace)

subsection \<open>The invariant of a generated system\<close>

text \<open>
  C1. Whenever the generator returns a system with the solution \<open>(x, y)\<close>, there are
  coefficients \<open>a1, b1, a2, b2\<close> and constants \<open>c1, c2\<close> from which its two equation
  strings are formatted, with \<open>a1 * x + b1 * y = c1\<close> and \<open>a2 * x + b2 * y = c2\<close> exactly,
  all four coefficients non-zero and in \<open>[-20, 20]\<close>, \<open>x\<close> and \<open>y\<close> in \<open>[-20, 20]\<close>,
  and \<open>|c1|, |c2| \<le> 120\<close>. This holds for the generator of the two files under
  \<open>src/math\<close> and for the one of \<open>Hannah/generate_equation_system.py\<close>, for every random
  source that selects positions of \<open>values\<close>.
\<close>

theorem generated_system_valid:
  assumes "\<forall>n. src n < length vals"
  shows
    "(generate_valid_equation_system src k = Some ((eqs, (x, y)), k') \<longrightarrow>
       (\<exists>a1 b1 a2 b2 c1 c2.
          eqs = [fixups (equation_text a1 b1 c1), fixups (equation_text a2 b2 c2)] \<and>
          a1 * x + b1 * y = c1 \<and> a2 * x + b2 * y = c2 \<and>
          a1 \<noteq> 0 \<and> b1 \<noteq> 0 \<and> a2 \<noteq> 0 \<and> b2 \<noteq> 0 \<and>
          {a1, b1, a2, b2} \<subseteq> {- 20..20} \<and> {x, y} \<subseteq> {- 20..20} \<and>
          \<bar>c1\<bar> \<le> 120 \<and> \<bar>c2\<bar> \<le> 120)) \<and>
     (generate_valid_equation_system_hannah src k = Some ((eqs, (x, y)), k') \<longrightarrow>
       (\<exists>a1 b1 a2 b2 c1 c2.
          eqs = [fixups (equation_text_braced a1 b1 c1),
                 fixups (equation_text_braced a2 b2 c2)] \<and>
          a1 * x + b1 * y = c1 \<and> a2 * x + b2 * y = c2 \<and>
          a1 \<noteq> 0 \<and> b1 \<noteq> 0 \<and> a2 \<noteq> 0 \<and> b2 \<noteq> 0 \<and>
          {a1, b1, a2, b2} \<subseteq> {- 20..20} \<and> {x, y} \<subseteq> {- 20..20} \<and>
          \<bar>c1\<bar> \<le> 120 \<and> \<bar>c2\<bar> \<le> 120))"
proof (intro conjI impI)
  assume g: "generate_valid_equation_system src k = Some ((eqs, (x, y)), k')"
  then obtain a1 b1 a2 b2 c1 c2 where
    run: "sample_loop src k = Some ((x, y, a1, b1, a2, b2, c1, c2), k')"
    and eqs: "eqs = [fixups (equation_text a1 b1 c1), fixups (equation_text a2 b2 c2)]"
    by (auto simp: generate_valid_equation_system_def split: option.splits)
  from sample_loop_valid [OF assms run] eqs
  show "\<exists>a1 b1 a2 b2 c1 c2.
          eqs = [fixups (equation_text a1 b1 c1), fixups (equation_text a2 b2 c2)] \<and>
          a1 * x + b1 * y = c1 \<and> a2 * x + b2 * y = c2 \<and>
          a1 \<noteq> 0 \<and> b1 \<noteq> 0 \<and> a2 \<noteq> 0 \<and> b2 \<noteq> 0 \<and>
          {a1, b1, a2, b2} \<subseteq> {- 20..20} \<and> {x, y} \<subseteq> {- 20..20} \<and>
          \<bar>c1\<bar> \<le> 120 \<and> \<bar>c2\<bar> \<le> 120"
    by blast
next
  assume g: "generate_valid_equation_system_hannah src k = Some ((eqs, (x, y)), k')"
  then obtain a1 b1 a2 b2 c1 c2 where
    run: "sample_loop src k = Some ((x, y, a1, b1, a2, b2, c1, c2), k')"
    and eqs: "eqs = [fixups (equation_text_braced a1 b1 c1),
                     fixups (equation_text_braced a2 b2 c2)]"
    by (auto simp: generate_valid_equation_system_hannah_def split: option.splits)
  from sample_loop_valid [OF assms run] eqs
  show "\<exists>a1 b1 a2 b2 c1 c2.
          eqs = [fixups (equation_text_braced a1 b1 c1),
                 fixups (equation_text_braced a2 b2 c2)] \<and>
          a1 * x + b1 * y = c1 \<and> a2 * x + b2 * y = c2 \<and>
          a1 \<noteq> 0 \<and> b1 \<noteq> 0 \<and> a2 \<noteq> 0 \<and> b2 \<noteq> 0 \<and>
          {a1, b1, a2, b2} \<subseteq> {- 20..20} \<and> {x, y} \<subseteq> {- 20..20} \<and>
          \<bar>c1\<bar> \<le> 120 \<and> \<bar>c2\<bar> \<le> 120"
    by blast
qed

theorem generated_system_valid_witness:
  "(\<forall>n. example_source n < length vals) \<and>
   generate_valid_equation_system example_source 0 =
     Some (([''3x - 2y = 8'', ''x + 5y = -3''], (2, - 1)), 12) \<and>
   (\<exists>a1 b1 a2 b2 c1 c2.
      [''3x - 2y = 8'', ''x + 5y = -3''] =
        [fixups (equation_text a1 b1 c1), fixups (equation_text a2 b2 c2)] \<and>
      a1 * 2 + b1 * (- 1) = c1 \<and> a2 * 2 + b2 * (- 1) = c2 \<and>
      a1 \<noteq> 0 \<and> b1 \<noteq> 0 \<and> a2 \<noteq> 0 \<and> b2 \<noteq> 0 \<and>
      {a1, b1, a2, b2} \<subseteq> {- 20..20} \<and> {2, - 1} \<subseteq> {- 20..(20::int)} \<and>
      \<bar>c1\<bar> \<le> 120 \<and> \<bar>c2\<bar> \<le> 120) \<and>
   generate_valid_equation_system_hannah example_source 0 =
     Some (([''{ 3x - 2y = 8 }'', ''{ x + 5y = -3 }''], (2, - 1)), 12) \<and>
   (\<exists>a1 b1 a2 b2 c1 c2.
      [''{ 3x - 2y = 8 }'', ''{ x + 5y = -3 }''] =
        [fixups (equation_text_braced a1 b1 c1), fixups (equation_text_braced a2 b2 c2)] \<and>
      a1 * 2 + b1 * (- 1) = c1 \<and> a2 * 2 + b2 * (- 1) = c2 \<and>
      a1 \<noteq> 0 \<and> b1 \<noteq> 0 \<and> a2 \<noteq> 0 \<and> b2 \<noteq> 0 \<and>
      {a1, b1, a2, b2} \<subseteq> {- 20..20} \<and> {2, - 1} \<subseteq> {- 20..(20::int)} \<and>
      \<bar>c1\<bar> \<le> 120 \<and> \<bar>c2\<bar> \<le> 120)"
proof -
  note v = generated_system_valid [OF example_source_ok, of 0 _ 2 "- 1" 12]
  from v [of "[''3x - 2y = 8'', ''x + 5y = -3'']", THEN conjunct1, rule_format,
      OF example_generate]
    v [of "[''{ 3x - 2y = 8 }'', ''{ x + 5y = -3 }'']", THEN conjunct2, rule_format,
      OF example_generate_hannah]
  show ?thesis
    using example_source_ok example_generate example_generate_hannah by blast
qed

subsection \<open>Termination of the rejection loop\<close>

text \<open>
  C8. The rejection loop has no retry cap. For every random source that selects positions
  of \<open>values\<close>: if the candidate of some iteration \<open>n\<close>, however late, passes both
  rejection tests, then the loop returns, and what it returns is the first candidate
  \<open>(x, y, a1, b1, a2, b2)\<close> that passes them, with its constants, after exactly
  \<open>6 * (m + 1)\<close> draws. The generator then returns (it is not \<open>None\<close>, the run that
  never leaves the loop) the two equations formatted from that candidate and the solution
  \<open>(x, y)\<close>, and this system is valid: \<open>a1 * x + b1 * y = c1\<close> and
  \<open>a2 * x + b2 * y = c2\<close>, all four coefficients non-zero and in \<open>[-20, 20]\<close>, \<open>x\<close> and
  \<open>y\<close> in \<open>[-20, 20]\<close>, \<open>|c1|, |c2| \<le> 120\<close>.
\<close>

theorem generator_terminates:
  assumes "\<forall>i. src i < length vals"
    and "accepted (fst (draw_six src (k + 6 * n)))"
  shows "\<exists>m\<le>n. \<exists>x y a1 b1 a2 b2 c1 c2.
           accepted (fst (draw_six src (k + 6 * m))) \<and>
           (\<forall>j<m. \<not> accepted (fst (draw_six src (k + 6 * j)))) \<and>
           with_constants (fst (draw_six src (k + 6 * m))) = (x, y, a1, b1, a2, b2, c1, c2) \<and>
           sample_loop src k = Some ((x, y, a1, b1, a2, b2, c1, c2), k + 6 * m + 6) \<and>
           generate_valid_equation_system src k =
             Some (([fixups (equation_text a1 b1 c1), fixups (equation_text a2 b2 c2)], (x, y)),
                   k + 6 * m + 6) \<and>
           generate_valid_equation_system_hannah src k =
             Some (([fixups (equation_text_braced a1 b1 c1),
                     fixups (equation_text_braced a2 b2 c2)], (x, y)),
                   k + 6 * m + 6) \<and>
           a1 * x + b1 * y = c1 \<and> a2 * x + b2 * y = c2 \<and>
           a1 \<noteq> 0 \<and> b1 \<noteq> 0 \<and> a2 \<noteq> 0 \<and> b2 \<noteq> 0 \<and>
           {a1, b1, a2, b2} \<subseteq> {- 20..20} \<and> {x, y} \<subseteq> {- 20..20} \<and>
           \<bar>c1\<bar> \<le> 120 \<and> \<bar>c2\<bar> \<le> 120"
proof -
  from sample_loop_first_accepted [OF assms(2)] obtain m where m: "m \<le> n"
    "accepted (fst (draw_six src (k + 6 * m)))"
    "\<forall>j<m. \<not> accepted (fst (draw_six src (k + 6 * j)))"
    "sample_loop src k =
       Some (with_constants (fst (draw_six src (k + 6 * m))), k + 6 * m + 6)"
    by blast
  obtain x y a1 b1 a2 b2 c1 c2 where
    t: "with_constants (fst (draw_six src (k + 6 * m))) = (x, y, a1, b1, a2, b2, c1, c2)"
    by (cases "with_constants (fst (draw_six src (k + 6 * m)))") auto
  have run: "sample_loop src k = Some ((x, y, a1, b1, a2, b2, c1, c2), k + 6 * m + 6)"
    using m(4) by (simp only: t)
  have g: "generate_valid_equation_system src k =
      Some (([fixups (equation_text a1 b1 c1), fixups (equation_text a2 b2 c2)], (x, y)),
            k + 6 * m + 6)"
    by (simp add: generate_valid_equation_system_def run)
  have h: "generate_valid_equation_system_hannah src k =
      Some (([fixups (equation_text_braced a1 b1 c1),
              fixups (equation_text_braced a2 b2 c2)], (x, y)),
            k + 6 * m + 6)"
    by (simp add: generate_valid_equation_system_hannah_def run)
  note v = sample_loop_valid [OF assms(1) run]
  note body =
    conjI [OF m(2) conjI [OF m(3) conjI [OF t conjI [OF run conjI [OF g conjI [OF h v]]]]]]
  show ?thesis
    by (rule exI [where x = m], rule conjI [OF m(1)], (rule exI)+, rule body)
qed

theorem generator_terminates_witness:
  "(\<forall>i. example_source i < length vals) \<and>
   accepted (fst (draw_six example_source (0 + 6 * 1))) \<and>
   \<not> accepted (fst (draw_six example_source 0)) \<and>
   generate_valid_equation_system example_source 0 =
     Some (([''3x - 2y = 8'', ''x + 5y = -3''], (2, - 1)), 12) \<and>
   generate_valid_equation_system_hannah example_source 0 =
     Some (([''{ 3x - 2y = 8 }'', ''{ x + 5y = -3 }''], (2, - 1)), 12) \<and>
   (\<exists>m\<le>1. \<exists>x y a1 b1 a2 b2 c1 c2.
      accepted (fst (draw_six example_source (0 + 6 * m))) \<and>
      (\<forall>j<m. \<not> accepted (fst (draw_six example_source (0 + 6 * j)))) \<and>
      with_constants (fst (draw_six example_source (0 + 6 * m))) =
        (x, y, a1, b1, a2, b2, c1, c2) \<and>
      sample_loop example_source 0 = Some ((x, y, a1, b1, a2, b2, c1, c2), 0 + 6 * m + 6) \<and>
      generate_valid_equation_system example_source 0 =
        Some (([fixups (equation_text a1 b1 c1), fixups (equation_text a2 b2 c2)], (x, y)),
              0 + 6 * m + 6) \<and>
      generate_valid_equation_system_hannah example_source 0 =
        Some (([fixups (equation_text_braced a1 b1 c1),
                fixups (equation_text_braced a2 b2 c2)], (x, y)),
              0 + 6 * m + 6) \<and>
      a1 * x + b1 * y = c1 \<and> a2 * x + b2 * y = c2 \<and>
      a1 \<noteq> 0 \<and> b1 \<noteq> 0 \<and> a2 \<noteq> 0 \<and> b2 \<noteq> 0 \<and>
      {a1, b1, a2, b2} \<subseteq> {- 20..20} \<and> {x, y} \<subseteq> {- 20..20} \<and>
      \<bar>c1\<bar> \<le> 120 \<and> \<bar>c2\<bar> \<le> 120)"
proof -
  have h: "accepted (fst (draw_six example_source (0 + 6 * 1)))"
    by (simp add: example_draws accepted_def)
  have r: "\<not> accepted (fst (draw_six example_source 0))"
    by (simp add: example_draws accepted_def)
  note t = generator_terminates [OF example_source_ok h]
  show ?thesis
    by (intro conjI) (rule example_source_ok h r example_generate example_generate_hannah t)+
qed


subsection \<open>The fix-up pipeline\<close>

lemma example_fixups:
  "fixups (equation_text 3 (- 2) 8) = ''3x - 2y = 8''"
  "fixups (equation_text_braced 3 (- 2) 8) = ''{ 3x - 2y = 8 }''"
  "replace (equation_text 3 (- 2) 8) ''+ -'' ''- '' = ''3x - 2y = 8''"
  "replace (equation_text_braced 3 (- 2) 8) ''+ -'' ''- '' = ''{ 3x - 2y = 8 }''"
  by (simp_all add: fixups_def replace_def equation_text_def equation_text_braced_def
      format_term_def str_int_def str_nat_digit)

text \<open>
  C7. The four replacements, applied in sequence to a formatted equation and then applied
  again to the result, give what one application gives. This holds for every
  coefficient pair and constant (so for those of the synthesizer), for the plain format
  of the files under \<open>src/math\<close> and for the braced format of the Hannah file.
\<close>

theorem fixups_idempotent:
  "fixups (fixups (equation_text a b c)) = fixups (equation_text a b c) \<and>
   fixups (fixups (equation_text_braced a b c)) = fixups (equation_text_braced a b c)"
  by (simp add: fixups_plain fixups_braced fixups_fixed)

theorem fixups_idempotent_witness:
  "fixups (fixups (equation_text 3 (- 2) 8)) = ''3x - 2y = 8'' \<and>
   fixups (fixups (equation_text_braced 3 (- 2) 8)) = ''{ 3x - 2y = 8 }''"
  using fixups_idempotent [of 3 "- 2" 8] by (simp only: example_fixups)

text \<open>
  C9. A formatted equation contains none of \<open>"- -"\<close>, \<open>" 1x"\<close>, \<open>" 1y"\<close>, neither as
  formatted nor after the first replacement \<open>"+ -" \<rightarrow> "- "\<close>, so the four-step pipeline
  equals that single replacement. This holds for every coefficient pair and constant, in
  particular for non-zero coefficients in \<open>[-20, 20]\<close> and the constants of the
  synthesizer, and for both formats.
\<close>

theorem fixups_single_replacement:
  "\<not> contains (equation_text a b c) ''- -'' \<and>
   \<not> contains (equation_text a b c) '' 1x'' \<and>
   \<not> contains (equation_text a b c) '' 1y'' \<and>
   \<not> contains (replace (equation_text a b c) ''+ -'' ''- '') ''- -'' \<and>
   \<not> contains (replace (equation_text a b c) ''+ -'' ''- '') '' 1x'' \<and>
   \<not> contains (replace (equation_text a b c) ''+ -'' ''- '') '' 1y'' \<and>
   fixups (equation_text a b c) = replace (equation_text a b c) ''+ -'' ''- '' \<and>
   \<not> contains (equation_text_braced a b c) ''- -'' \<and>
   \<not> contains (equation_text_braced a b c) '' 1x'' \<and>
   \<not> contains (equation_text_braced a b c) '' 1y'' \<and>
   \<not> contains (replace (equation_text_braced a b c) ''+ -'' ''- '') ''- -'' \<and>
   \<not> contains (replace (equation_text_braced a b c) ''+ -'' ''- '') '' 1x'' \<and>
   \<not> contains (replace (equation_text_braced a b c) ''+ -'' ''- '') '' 1y'' \<and>
   fixups (equation_text_braced a b c) = replace (equation_text_braced a b c) ''+ -'' ''- ''"
  by (simp add: not_contains_before not_contains_after first_replacement fixups_plain
      fixups_braced)

theorem fixups_single_replacement_witness:
  "fixups (equation_text 3 (- 2) 8) = ''3x - 2y = 8'' \<and>
   \<not> contains ''3x - 2y = 8'' ''- -'' \<and>
   replace (equation_text 3 (- 2) 8) ''+ -'' ''- '' = ''3x - 2y = 8'' \<and>
   \<not> contains (equation_text 3 (- 2) 8) '' 1x''"
  using fixups_single_replacement [of 3 "- 2" 8] by (simp only: example_fixups) blast

section \<open>Properties of the page layouts\<close>

subsection \<open>What is drawn and what the footer lists\<close>

lemma linked_empty: "linked data off ([], [])"
  by (simp add: linked_def)

lemma linked_snoc:
  assumes "linked data off (canvas, sols)" "off \<le> n" "n - off < length data"
    "data ! (n - off) = (eqs, solution)"
  shows "linked data off
           (canvas @ [\<lparr>eq_num = n, origin_x = x, origin_y = y, equations = eqs\<rparr>],
            sols @ [solution])"
  using assms by (simp add: linked_def)

lemma slice_nth:
  "i < length (slice xs a b) \<Longrightarrow> slice xs a b ! i = xs ! (a + i) \<and> a + i < length xs"
proof -
  assume "i < length (slice xs a b)"
  then have i: "a + i < min (length xs) b"
    by (auto simp: slice_def)
  then have "drop a (take b xs) ! i = take b xs ! (a + i)"
    by (intro nth_drop) simp
  with i show ?thesis
    by (simp add: slice_def)
qed

lemma linked_slice:
  assumes "linked (slice xs a b) (a + off) st"
  shows "linked xs off st"
proof -
  obtain canvas sols where st: "st = (canvas, sols)" by (cases st)
  have *: "slice xs a b ! (eq_num d - (a + off)) = xs ! (eq_num d - off) \<and>
           eq_num d - off < length xs \<and> off \<le> eq_num d"
    if "a + off \<le> eq_num d" "eq_num d - (a + off) < length (slice xs a b)" for d
  proof -
    have "a + (eq_num d - (a + off)) = eq_num d - off" using that(1) by simp
    with slice_nth [OF that(2)] that(1) show ?thesis by simp
  qed
  from assms show ?thesis
    unfolding st linked_def using * by (auto intro!: map_cong [OF refl])
qed

lemma column_loop_fixed_linked:
  "linked pe (Suc start) st \<Longrightarrow>
   linked pe (Suc start) (column_loop_fixed L epc pe start col x idxs y st)"
proof (induction idxs arbitrary: y st)
  case Nil
  then show ?case by simp
next
  case (Cons idx idxs)
  obtain canvas sols where st: "st = (canvas, sols)" by (cases st)
  show ?case
  proof (cases "col * epc + idx \<ge> length pe")
    case True
    with Cons.prems show ?thesis by (simp add: st)
  next
    case False
    obtain eqs solution where item: "pe ! (col * epc + idx) = (eqs, solution)"
      by (cases "pe ! (col * epc + idx)")
    let ?n = "start + col * epc + idx + 1"
    have "linked pe (Suc start)
            (canvas @ [\<lparr>eq_num = ?n, origin_x = x, origin_y = y, equations = eqs\<rparr>],
             sols @ [solution])"
      using Cons.prems False item unfolding st by (intro linked_snoc) simp_all
    with Cons.IH False item show ?thesis
      by (simp add: st draw_equation_fixed_def Let_def)
  qed
qed

lemma fold_linked:
  assumes "\<And>c st. linked data off st \<Longrightarrow> linked data off (f c st)"
  shows "linked data off st \<Longrightarrow> linked data off (fold f cs st)"
  using assms by (induction cs arbitrary: st) auto


lemma page_fixed_linked:
  "\<exists>sols. linked all_equations 1 (instructions (page_fixed L all_equations ncols epc p), sols) \<and>
          footer_text (page_fixed L all_equations ncols epc p) = footer sols"
proof -
  let ?start = "p * ncols * epc"
  let ?pe = "slice all_equations ?start (?start + ncols * epc)"
  let ?st = "fold (\<lambda>col. column_loop_fixed L epc ?pe ?start col (x_positions L ncols ! col)
                [0..<epc] (replicate ncols (base_y L) ! col)) [0..<ncols] ([], [])"
  have "linked ?pe (Suc ?start) ?st"
    by (intro fold_linked column_loop_fixed_linked linked_empty)
  then have "linked ?pe (?start + 1) ?st" by simp
  then have l: "linked all_equations 1 ?st" by (rule linked_slice)
  obtain canvas sols where st: "?st = (canvas, sols)" by (cases ?st)
  have "page_fixed L all_equations ncols epc p = \<lparr>instructions = canvas, footer_text = footer sols\<rparr>"
    by (simp add: page_fixed_def Let_def st)
  with l st show ?thesis by auto
qed

lemma column_loop_hannah_linked:
  "linked eqns 1 st \<Longrightarrow>
   linked eqns 1 (column_loop_hannah L epc eqns page_num col x idxs y st)"
proof (induction idxs arbitrary: y st)
  case Nil
  then show ?case by simp
next
  case (Cons idx idxs)
  obtain canvas sols where st: "st = (canvas, sols)" by (cases st)
  let ?n = "(page_num - 1) * equations_per_page L + col * epc + idx + 1"
  show ?case
  proof (cases "?n - 1 \<ge> length eqns")
    case True
    with Cons.prems show ?thesis by (simp add: st)
  next
    case False
    obtain eqs solution where item: "eqns ! (?n - 1) = (eqs, solution)"
      by (cases "eqns ! (?n - 1)")
    have "linked eqns 1
            (canvas @ [\<lparr>eq_num = ?n, origin_x = x, origin_y = y, equations = eqs\<rparr>],
             sols @ [solution])"
      using Cons.prems False item unfolding st by (intro linked_snoc) simp_all
    with Cons.IH False item show ?thesis
      by (simp add: st draw_equation_hannah_def Let_def)
  qed
qed

lemma print_page_linked:
  "\<exists>sols. linked eqns 1 (instructions (print_page ncols epc L eqns page_num), sols) \<and>
          footer_text (print_page ncols epc L eqns page_num) = footer sols"
proof -
  let ?st = "fold (\<lambda>col. column_loop_hannah L epc eqns page_num col (x_positions L ncols ! col)
                [0..<epc] (replicate ncols (base_y L) ! col)) [0..<ncols] ([], [])"
  have l: "linked eqns 1 ?st"
    by (intro fold_linked column_loop_hannah_linked linked_empty)
  obtain canvas sols where st: "?st = (canvas, sols)" by (cases ?st)
  have "print_page ncols epc L eqns page_num = \<lparr>instructions = canvas, footer_text = footer sols\<rparr>"
    by (simp add: print_page_def Let_def st)
  with l st show ?thesis by auto
qed

lemma item_loop_dynamic_linked:
  assumes "\<forall>idx\<in>set idxs. cs + idx < length pd \<and> cd ! idx = pd ! (cs + idx)"
  shows "linked pd (Suc start) st \<Longrightarrow>
         linked pd (Suc start) (item_loop_dynamic L cd start cs x sp idxs y st)"
  using assms
proof (induction idxs arbitrary: y st)
  case Nil
  then show ?case by simp
next
  case (Cons idx idxs)
  obtain canvas sols where st: "st = (canvas, sols)" by (cases st)
  obtain eqs solution where item: "cd ! idx = (eqs, solution)"
    by (cases "cd ! idx")
  let ?n = "start + (cs + idx) + 1"
  from Cons.prems(2) have ok: "cs + idx < length pd" "pd ! (cs + idx) = (eqs, solution)"
    using item by auto
  have "linked pd (Suc start)
          (canvas @ [\<lparr>eq_num = ?n, origin_x = x, origin_y = y, equations = eqs\<rparr>],
           sols @ [solution])"
    using Cons.prems(1) ok unfolding st by (intro linked_snoc) simp_all
  moreover have "item_loop_dynamic L cd start cs x sp (idx # idxs) y (canvas, sols) =
      (if y - 2 * line_height L - sp < footer_y L + 15 * mm
       then (canvas @ [\<lparr>eq_num = ?n, origin_x = x, origin_y = y, equations = eqs\<rparr>],
             sols @ [solution])
       else item_loop_dynamic L cd start cs x sp idxs (y - 2 * line_height L - sp)
              (canvas @ [\<lparr>eq_num = ?n, origin_x = x, origin_y = y, equations = eqs\<rparr>],
               sols @ [solution]))"
    by (simp add: item draw_equation_dynamic_def Let_def)
  moreover have "\<forall>idx\<in>set idxs. cs + idx < length pd \<and> cd ! idx = pd ! (cs + idx)"
    using Cons.prems(2) by simp
  ultimately show ?case
    unfolding st using Cons.IH by simp
qed

lemma spacing_height_of_Inr:
  "spacing_height_of r n = Inr (if n > 0 then r / of_nat n else 0)"
  by (simp add: spacing_height_of_def py_truediv_def)

lemma column_dynamic_linked:
  assumes "linked pd (Suc start) st"
  shows "\<exists>st'. column_dynamic L pd start ncols epc col st = Inr st' \<and> linked pd (Suc start) st'"
proof -
  let ?cd = "slice pd (col * epc) ((col + 1) * epc)"
  have "\<forall>idx\<in>set [0..<length ?cd]. col * epc + idx < length pd \<and>
          ?cd ! idx = pd ! (col * epc + idx)"
    using slice_nth [of _ pd "col * epc" "(col + 1) * epc"] by auto
  note loop = item_loop_dynamic_linked [OF this assms]
  show ?thesis
  proof (cases "length ?cd = 0")
    case True
    with assms show ?thesis
      by (simp add: column_dynamic_def Let_def del: length_0_conv)
  next
    case False
    then have "column_dynamic L pd start ncols epc col st =
        Inr (item_loop_dynamic L ?cd start (col * epc) (x_positions L ncols ! col)
               ((replicate ncols (base_y L) ! col - footer_y L - 10 * mm -
                   of_nat (length ?cd) * (2 * line_height L)) / of_nat (length ?cd))
               [0..<length ?cd] (replicate ncols (base_y L) ! col) st)"
      by (simp add: column_dynamic_def Let_def spacing_height_of_Inr del: length_0_conv)
    with loop show ?thesis by simp
  qed
qed

lemma columns_dynamic_linked:
  "linked pd (Suc start) st \<Longrightarrow>
   \<exists>st'. columns_dynamic L pd start ncols epc cols st = Inr st' \<and> linked pd (Suc start) st'"
proof (induction cols arbitrary: st)
  case Nil
  then show ?case by simp
next
  case (Cons col cols)
  from column_dynamic_linked [OF Cons.prems] obtain st1 where
    "column_dynamic L pd start ncols epc col st = Inr st1" "linked pd (Suc start) st1"
    by blast
  with Cons.IH [OF this(2)] show ?case by simp
qed

lemma page_dynamic_linked:
  "\<exists>pg sols. page_dynamic L all_equations ncols epc p = Inr pg \<and>
     linked all_equations 1 (instructions pg, sols) \<and> footer_text pg = footer sols"
proof -
  let ?start = "p * ncols * epc"
  let ?pd = "slice all_equations ?start (?start + ncols * epc)"
  from columns_dynamic_linked [OF linked_empty] obtain st where
    st: "columns_dynamic L ?pd ?start ncols epc [0..<ncols] ([], []) = Inr st"
      "linked ?pd (Suc ?start) st"
    by blast
  from st(2) have "linked ?pd (?start + 1) st" by simp
  then have l: "linked all_equations 1 st" by (rule linked_slice)
  obtain canvas sols where cs: "st = (canvas, sols)" by (cases st)
  have "page_dynamic L all_equations ncols epc p =
          Inr \<lparr>instructions = canvas, footer_text = footer sols\<rparr>"
    by (simp add: page_dynamic_def Let_def st(1) cs)
  with l cs show ?thesis by auto
qed

subsection \<open>Which items a column places\<close>

lemma item_loop_dynamic_placed:
  "i \<le> n \<Longrightarrow>
   \<exists>m. i \<le> m \<and> m \<le> n \<and> (i < n \<longrightarrow> i < m) \<and>
     item_loop_dynamic L cd start cs x sp [i..<n] y (canvas, sols) =
       (canvas @
          map (\<lambda>k. \<lparr>eq_num = start + (cs + k) + 1, origin_x = x,
                     origin_y = y - of_nat (k - i) * (2 * line_height L + sp),
                     equations = fst (cd ! k)\<rparr>) [i..<m],
        sols @ map (\<lambda>k. snd (cd ! k)) [i..<m]) \<and>
     (\<forall>j. i < j \<and> j < m \<longrightarrow>
        \<not> y - of_nat (j - i) * (2 * line_height L + sp) < footer_y L + 15 * mm) \<and>
     (m < n \<longrightarrow> y - of_nat (m - i) * (2 * line_height L + sp) < footer_y L + 15 * mm)"
proof (induction "n - i" arbitrary: i y canvas sols)
  case 0
  then have "i = n" by simp
  then show ?case by (intro exI [of _ n]) simp
next
  case (Suc d)
  then have lt: "i < n" by simp
  let ?adv = "2 * line_height L + sp"
  let ?thr = "footer_y L + 15 * mm"
  let ?mk = "\<lambda>y i k. \<lparr>eq_num = start + (cs + k) + 1, origin_x = x,
                     origin_y = y - of_nat (k - i) * ?adv, equations = fst (cd ! k)\<rparr>"
  let ?ins = "\<lparr>eq_num = start + (cs + i) + 1, origin_x = x, origin_y = y,
               equations = fst (cd ! i)\<rparr>"
  let ?y' = "y - 2 * line_height L - sp"
  have y': "?y' = y - ?adv" by simp
  have step: "item_loop_dynamic L cd start cs x sp [i..<n] y (canvas, sols) =
      (if ?y' < ?thr then (canvas @ [?ins], sols @ [snd (cd ! i)])
       else item_loop_dynamic L cd start cs x sp [Suc i..<n] ?y'
              (canvas @ [?ins], sols @ [snd (cd ! i)]))"
    using lt by (simp add: upt_conv_Cons draw_equation_dynamic_def Let_def split: prod.splits)
  show ?case
  proof (cases "?y' < ?thr")
    case True
    have "[i..<Suc i] = [i]" by simp
    with True step lt show ?thesis
      by (intro exI [of _ "Suc i"]) (simp del: upt_Suc)
  next
    case False
    from Suc(2) lt have "d = n - Suc i" "Suc i \<le> n" by simp_all
    from Suc(1) [OF this, of ?y' "canvas @ [?ins]" "sols @ [snd (cd ! i)]"] obtain m where
      m: "Suc i \<le> m" "m \<le> n" "Suc i < n \<longrightarrow> Suc i < m"
      "item_loop_dynamic L cd start cs x sp [Suc i..<n] ?y'
         (canvas @ [?ins], sols @ [snd (cd ! i)]) =
       ((canvas @ [?ins]) @ map (?mk ?y' (Suc i)) [Suc i..<m],
        (sols @ [snd (cd ! i)]) @ map (\<lambda>k. snd (cd ! k)) [Suc i..<m])"
      "\<forall>j. Suc i < j \<and> j < m \<longrightarrow> \<not> ?y' - of_nat (j - Suc i) * ?adv < ?thr"
      "m < n \<longrightarrow> ?y' - of_nat (m - Suc i) * ?adv < ?thr"
      by blast
    have shift: "?y' - of_nat (j - Suc i) * ?adv = y - of_nat (j - i) * ?adv" if "i < j" for j
    proof -
      from that have "of_nat (j - i) = (of_nat (j - Suc i) :: rat) + 1"
        by (simp add: Suc_diff_Suc flip: of_nat_Suc)
      then show ?thesis by (simp add: algebra_simps)
    qed
    have mk: "map (?mk ?y' (Suc i)) [Suc i..<m] = map (?mk y i) [Suc i..<m]"
    proof (rule map_cong [OF refl])
      fix k assume "k \<in> set [Suc i..<m]"
      then have "i < k" by simp
      from shift [OF this] show "?mk ?y' (Suc i) k = ?mk y i k" by simp
    qed
    have ins: "?ins = ?mk y i i" by simp
    have upt: "[i..<m] = i # [Suc i..<m]"
      using m(1) by (simp add: upt_conv_Cons)
    from step False have
      "item_loop_dynamic L cd start cs x sp [i..<n] y (canvas, sols) =
       item_loop_dynamic L cd start cs x sp [Suc i..<n] ?y'
         (canvas @ [?ins], sols @ [snd (cd ! i)])"
      by (simp only: if_False)
    also note m(4)
    also have "((canvas @ [?ins]) @ map (?mk ?y' (Suc i)) [Suc i..<m],
        (sols @ [snd (cd ! i)]) @ map (\<lambda>k. snd (cd ! k)) [Suc i..<m]) =
        (canvas @ map (?mk y i) [i..<m], sols @ map (\<lambda>k. snd (cd ! k)) [i..<m])"
      unfolding mk upt by simp
    finally have res: "item_loop_dynamic L cd start cs x sp [i..<n] y (canvas, sols) =
        (canvas @ map (?mk y i) [i..<m], sols @ map (\<lambda>k. snd (cd ! k)) [i..<m])" .
    have a: "\<forall>j. i < j \<and> j < m \<longrightarrow> \<not> y - of_nat (j - i) * ?adv < ?thr"
    proof (intro allI impI)
      fix j assume j: "i < j \<and> j < m"
      show "\<not> y - of_nat (j - i) * ?adv < ?thr"
      proof (cases "j = Suc i")
        case True
        with False y' show ?thesis by simp
      next
        case False
        with j have "Suc i < j \<and> j < m" by simp
        with m(5) have "\<not> ?y' - of_nat (j - Suc i) * ?adv < ?thr" by blast
        with shift [of j] j show ?thesis by simp
      qed
    qed
    have b: "m < n \<longrightarrow> y - of_nat (m - i) * ?adv < ?thr"
    proof
      assume "m < n"
      with m(6) have lt': "?y' - of_nat (m - Suc i) * ?adv < ?thr" by blast
      have "i < m" using m(1) by simp
      from lt' show "y - of_nat (m - i) * ?adv < ?thr"
        unfolding shift [OF \<open>i < m\<close>] .
    qed
    from res a b m(1) m(2) show ?thesis
      by (intro exI [of _ m]) simp
  qed
qed


lemma advance_shift:
  fixes y A :: rat
  assumes "i < j"
  shows "y - A - of_nat (j - Suc i) * A = y - of_nat (j - i) * A"
proof -
  from assms have "of_nat (j - i) = (of_nat (j - Suc i) :: rat) + 1"
    by (simp add: Suc_diff_Suc flip: of_nat_Suc)
  then show ?thesis by (simp add: algebra_simps)
qed

lemma column_loop_fixed_placed:
  "i \<le> n \<Longrightarrow>
   \<exists>m. i \<le> m \<and> m \<le> n \<and>
     column_loop_fixed L epc pe start col x [i..<n] y (canvas, sols) =
       (canvas @
          map (\<lambda>k. \<lparr>eq_num = start + col * epc + k + 1, origin_x = x,
                     origin_y = y - of_nat (k - i) * (35 / 10 * line_height L),
                     equations = fst (pe ! (col * epc + k))\<rparr>) [i..<m],
        sols @ map (\<lambda>k. snd (pe ! (col * epc + k))) [i..<m]) \<and>
     (\<forall>k. i \<le> k \<and> k < m \<longrightarrow> col * epc + k < length pe) \<and>
     (\<forall>j. i < j \<and> j < m \<longrightarrow>
        \<not> y - of_nat (j - i) * (35 / 10 * line_height L) < footer_y L + 30 * mm) \<and>
     (m < n \<longrightarrow> length pe \<le> col * epc + m \<or>
        (i < m \<and> y - of_nat (m - i) * (35 / 10 * line_height L) < footer_y L + 30 * mm))"
proof (induction "n - i" arbitrary: i y canvas sols)
  case 0
  then have "i = n" by simp
  then show ?case by (intro exI [of _ n]) simp
next
  case (Suc d)
  then have lt: "i < n" by simp
  let ?adv = "35 / 10 * line_height L"
  let ?thr = "footer_y L + 30 * mm"
  let ?mk = "\<lambda>y i k. \<lparr>eq_num = start + col * epc + k + 1, origin_x = x,
                     origin_y = y - of_nat (k - i) * ?adv,
                     equations = fst (pe ! (col * epc + k))\<rparr>"
  let ?ins = "\<lparr>eq_num = start + col * epc + i + 1, origin_x = x, origin_y = y,
               equations = fst (pe ! (col * epc + i))\<rparr>"
  let ?s = "snd (pe ! (col * epc + i))"
  let ?y' = "y - ?adv"
  show ?case
  proof (cases "length pe \<le> col * epc + i")
    case True
    then have "column_loop_fixed L epc pe start col x [i..<n] y (canvas, sols) = (canvas, sols)"
      using lt by (simp add: upt_conv_Cons)
    with True lt show ?thesis
      by (intro exI [of _ i]) simp
  next
    case inrange: False
    have step: "column_loop_fixed L epc pe start col x [i..<n] y (canvas, sols) =
        (if ?y' < ?thr then (canvas @ [?ins], sols @ [?s])
         else column_loop_fixed L epc pe start col x [Suc i..<n] ?y'
                (canvas @ [?ins], sols @ [?s]))"
      using lt inrange
      by (simp add: upt_conv_Cons draw_equation_fixed_def Let_def split: prod.splits)
    show ?thesis
    proof (cases "?y' < ?thr")
      case True
      with step have "column_loop_fixed L epc pe start col x [i..<n] y (canvas, sols) =
          (canvas @ map (?mk y i) [i..<Suc i], sols @ map (\<lambda>k. snd (pe ! (col * epc + k))) [i..<Suc i])"
        by simp
      moreover have "\<forall>k. i \<le> k \<and> k < Suc i \<longrightarrow> col * epc + k < length pe"
        using inrange by (auto simp: less_Suc_eq_le)
      moreover have "y - of_nat (Suc i - i) * ?adv < ?thr"
        using True by simp
      ultimately show ?thesis
        using lt by (intro exI [of _ "Suc i"]) (simp del: upt_Suc)
    next
      case False
      from Suc(2) lt have "d = n - Suc i" "Suc i \<le> n" by simp_all
      from Suc(1) [OF this, of ?y' "canvas @ [?ins]" "sols @ [?s]"] obtain m where
        m: "Suc i \<le> m" "m \<le> n"
        "column_loop_fixed L epc pe start col x [Suc i..<n] ?y' (canvas @ [?ins], sols @ [?s]) =
         ((canvas @ [?ins]) @ map (?mk ?y' (Suc i)) [Suc i..<m],
          (sols @ [?s]) @ map (\<lambda>k. snd (pe ! (col * epc + k))) [Suc i..<m])"
        "\<forall>k. Suc i \<le> k \<and> k < m \<longrightarrow> col * epc + k < length pe"
        "\<forall>j. Suc i < j \<and> j < m \<longrightarrow> \<not> ?y' - of_nat (j - Suc i) * ?adv < ?thr"
        "m < n \<longrightarrow> length pe \<le> col * epc + m \<or>
           (Suc i < m \<and> ?y' - of_nat (m - Suc i) * ?adv < ?thr)"
        by blast
      have shift: "?y' - of_nat (j - Suc i) * ?adv = y - of_nat (j - i) * ?adv" if "i < j" for j
        using that by (rule advance_shift)
      have mk: "map (?mk ?y' (Suc i)) [Suc i..<m] = map (?mk y i) [Suc i..<m]"
      proof (rule map_cong [OF refl])
        fix k assume "k \<in> set [Suc i..<m]"
        then have "i < k" by simp
        from shift [OF this] show "?mk ?y' (Suc i) k = ?mk y i k"
          by (simp only:)
      qed
      have upt: "[i..<m] = i # [Suc i..<m]"
        using m(1) by (simp add: upt_conv_Cons)
      from step False have
        "column_loop_fixed L epc pe start col x [i..<n] y (canvas, sols) =
         column_loop_fixed L epc pe start col x [Suc i..<n] ?y' (canvas @ [?ins], sols @ [?s])"
        by (simp only: if_False)
      also note m(3)
      also have "((canvas @ [?ins]) @ map (?mk ?y' (Suc i)) [Suc i..<m],
          (sols @ [?s]) @ map (\<lambda>k. snd (pe ! (col * epc + k))) [Suc i..<m]) =
          (canvas @ map (?mk y i) [i..<m], sols @ map (\<lambda>k. snd (pe ! (col * epc + k))) [i..<m])"
        unfolding mk upt by simp
      finally have res: "column_loop_fixed L epc pe start col x [i..<n] y (canvas, sols) =
          (canvas @ map (?mk y i) [i..<m], sols @ map (\<lambda>k. snd (pe ! (col * epc + k))) [i..<m])" .
      have r: "\<forall>k. i \<le> k \<and> k < m \<longrightarrow> col * epc + k < length pe"
      proof (intro allI impI)
        fix k assume k: "i \<le> k \<and> k < m"
        show "col * epc + k < length pe"
        proof (cases "k = i")
          case True
          with inrange show ?thesis by simp
        next
          case False
          with k have "Suc i \<le> k \<and> k < m" by simp
          with m(4) show ?thesis by blast
        qed
      qed
      have a: "\<forall>j. i < j \<and> j < m \<longrightarrow> \<not> y - of_nat (j - i) * ?adv < ?thr"
      proof (intro allI impI)
        fix j assume j: "i < j \<and> j < m"
        show "\<not> y - of_nat (j - i) * ?adv < ?thr"
        proof (cases "j = Suc i")
          case True
          with False show ?thesis by simp
        next
          case neq: False
          with j have "Suc i < j \<and> j < m" by simp
          with m(5) have "\<not> ?y' - of_nat (j - Suc i) * ?adv < ?thr" by blast
          moreover have "i < j" using j by simp
          ultimately show ?thesis unfolding shift [OF \<open>i < j\<close>] by blast
        qed
      qed
      have b: "m < n \<longrightarrow> length pe \<le> col * epc + m \<or>
          (i < m \<and> y - of_nat (m - i) * ?adv < ?thr)"
      proof
        assume "m < n"
        have "i < m" using m(1) by simp
        from \<open>m < n\<close> m(6) have "length pe \<le> col * epc + m \<or>
            ?y' - of_nat (m - Suc i) * ?adv < ?thr" by blast
        then show "length pe \<le> col * epc + m \<or> (i < m \<and> y - of_nat (m - i) * ?adv < ?thr)"
          unfolding shift [OF \<open>i < m\<close>] using \<open>i < m\<close> by blast
      qed
      from res r a b m(1) m(2) show ?thesis
        by (intro exI [of _ m]) simp
    qed
  qed
qed

lemma column_loop_hannah_all:
  "i \<le> n \<Longrightarrow>
   \<forall>k. i \<le> k \<and> k < n \<longrightarrow> (page_num - 1) * equations_per_page L + col * epc + k < length eqns \<Longrightarrow>
   \<exists>canvas' sols'.
     column_loop_hannah L epc eqns page_num col x [i..<n] y (canvas, sols) = (canvas', sols') \<and>
     map (\<lambda>d. (eq_num d, equations d)) canvas' =
       map (\<lambda>d. (eq_num d, equations d)) canvas @
       map (\<lambda>k. ((page_num - 1) * equations_per_page L + col * epc + k + 1,
                  fst (eqns ! ((page_num - 1) * equations_per_page L + col * epc + k)))) [i..<n]"
proof (induction "n - i" arbitrary: i y canvas sols)
  case 0
  then have "i = n" by simp
  then show ?case by simp
next
  case (Suc d)
  then have lt: "i < n" by simp
  let ?N = "\<lambda>k. (page_num - 1) * equations_per_page L + col * epc + k"
  from Suc(4) lt have inrange: "?N i < length eqns" by simp
  obtain eqs solution where item: "eqns ! ?N i = (eqs, solution)"
    by (cases "eqns ! ?N i")
  let ?ins = "\<lparr>eq_num = ?N i + 1, origin_x = x, origin_y = y, equations = eqs\<rparr>"
  let ?y' = "y - (of_nat (length eqs) + 1) * line_height L"
  have step: "column_loop_hannah L epc eqns page_num col x [i..<n] y (canvas, sols) =
      column_loop_hannah L epc eqns page_num col x [Suc i..<n] ?y'
        (canvas @ [?ins], sols @ [solution])"
    using lt inrange item
    by (simp add: upt_conv_Cons draw_equation_hannah_def Let_def)
  from Suc(2) lt have "d = n - Suc i" "Suc i \<le> n" by simp_all
  moreover from Suc(4) have "\<forall>k. Suc i \<le> k \<and> k < n \<longrightarrow> ?N k < length eqns" by simp
  ultimately obtain canvas' sols' where
    r: "column_loop_hannah L epc eqns page_num col x [Suc i..<n] ?y'
          (canvas @ [?ins], sols @ [solution]) = (canvas', sols')"
       "map (\<lambda>d. (eq_num d, equations d)) canvas' =
          map (\<lambda>d. (eq_num d, equations d)) (canvas @ [?ins]) @
          map (\<lambda>k. (?N k + 1, fst (eqns ! ?N k))) [Suc i..<n]"
    using Suc(1) [of "Suc i" ?y' "canvas @ [?ins]" "sols @ [solution]"] by blast
  have upt: "[i..<n] = i # [Suc i..<n]"
    using lt by (simp add: upt_conv_Cons)
  from r(2) item have "map (\<lambda>d. (eq_num d, equations d)) canvas' =
      map (\<lambda>d. (eq_num d, equations d)) canvas @ map (\<lambda>k. (?N k + 1, fst (eqns ! ?N k))) [i..<n]"
    unfolding upt by simp
  with step r(1) show ?case by simp
qed

subsection \<open>Letter geometry\<close>

lemma mm_val: "mm = 360 / 127"
  by (simp add: mm_def inch_def)

lemma letter_val: "letter = (612, 792)"
  by (simp add: letter_def inch_def)

lemma calculate_layout_fixed_Inr:
  assumes "calculate_layout_fixed ncols m g = Inr L"
  shows "0 < ncols" "base_y L = 792 - 25 * mm" "line_height L = 7 * mm" "footer_y L = 15 * mm"
  using assms
  by (auto simp: calculate_layout_fixed_def letter_val py_truediv_def split: if_splits)

lemma fixed_fits:
  assumes "base_y L = 792 - 25 * mm" "line_height L = 7 * mm" "footer_y L = 15 * mm"
  shows "j \<le> 8 \<Longrightarrow> \<not> base_y L - of_nat j * (35 / 10 * line_height L) < footer_y L + 30 * mm"
    and "base_y L - of_nat 9 * (35 / 10 * line_height L) < footer_y L + 30 * mm"
proof -
  show "base_y L - of_nat 9 * (35 / 10 * line_height L) < footer_y L + 30 * mm"
    by (simp add: assms mm_val)
  assume "j \<le> 8"
  then have "(of_nat j :: rat) \<le> of_nat 8"
    by (simp only: of_nat_le_iff)
  then have "(of_nat j :: rat) \<le> 8" by simp
  then show "\<not> base_y L - of_nat j * (35 / 10 * line_height L) < footer_y L + 30 * mm"
    by (simp add: assms mm_val)
qed

lemma column_fixed_letter:
  assumes geo: "base_y L = 792 - 25 * mm" "line_height L = 7 * mm" "footer_y L = 15 * mm"
  shows "\<exists>canvas' sols'.
     column_loop_fixed L epc pe start col x [0..<epc] (base_y L) (canvas, sols) = (canvas', sols') \<and>
     map (\<lambda>d. (eq_num d, equations d)) canvas' =
       map (\<lambda>d. (eq_num d, equations d)) canvas @
       map (\<lambda>k. (start + col * epc + k + 1, fst (pe ! (col * epc + k))))
         [0..<min (min epc 9) (length pe - col * epc)]"
proof -
  let ?adv = "35 / 10 * line_height L"
  let ?thr = "footer_y L + 30 * mm"
  let ?K = "min (min epc 9) (length pe - col * epc)"
  from column_loop_fixed_placed [of 0 epc L epc pe start col x "base_y L" canvas sols]
  obtain m where m: "m \<le> epc"
    "column_loop_fixed L epc pe start col x [0..<epc] (base_y L) (canvas, sols) =
       (canvas @
          map (\<lambda>k. \<lparr>eq_num = start + col * epc + k + 1, origin_x = x,
                     origin_y = base_y L - of_nat (k - 0) * ?adv,
                     equations = fst (pe ! (col * epc + k))\<rparr>) [0..<m],
        sols @ map (\<lambda>k. snd (pe ! (col * epc + k))) [0..<m])"
    "\<forall>k. 0 \<le> k \<and> k < m \<longrightarrow> col * epc + k < length pe"
    "\<forall>j. 0 < j \<and> j < m \<longrightarrow> \<not> base_y L - of_nat (j - 0) * ?adv < ?thr"
    "m < epc \<longrightarrow> length pe \<le> col * epc + m \<or>
       (0 < m \<and> base_y L - of_nat (m - 0) * ?adv < ?thr)"
    by blast
  have le9: "m \<le> 9"
  proof (rule ccontr)
    assume "\<not> m \<le> 9"
    then have "0 < (9::nat) \<and> 9 < m" by simp
    with m(4) have "\<not> base_y L - of_nat (9 - 0) * ?adv < ?thr" by blast
    with fixed_fits(2) [OF geo] show False by simp
  qed
  have ledata: "m \<le> length pe - col * epc"
  proof (cases m)
    case 0
    then show ?thesis by simp
  next
    case (Suc k)
    with m(3) have "col * epc + k < length pe" by simp
    with Suc show ?thesis by simp
  qed
  have ge: "?K \<le> m"
  proof (rule ccontr)
    assume "\<not> ?K \<le> m"
    then have lt: "m < epc" "m < 9" "m < length pe - col * epc" by simp_all
    from lt(3) have "\<not> length pe \<le> col * epc + m" by simp
    with m(5) lt(1) have "base_y L - of_nat (m - 0) * ?adv < ?thr" by blast
    moreover from lt(2) have "m \<le> 8" by simp
    ultimately show False using fixed_fits(1) [OF geo, of m] by simp
  qed
  from le9 ledata ge m(1) have "m = ?K" by simp
  with m(2) show ?thesis by (simp add: comp_def)
qed

lemma fold_upt_Suc: "fold f [0..<Suc c] st = f c (fold f [0..<c] st)"
  by simp

lemma columns_fixed_letter:
  assumes geo: "base_y L = 792 - 25 * mm" "line_height L = 7 * mm" "footer_y L = 15 * mm"
  shows "c \<le> ncols \<Longrightarrow>
    \<exists>canvas sols.
      fold (\<lambda>col. column_loop_fixed L epc pe start col (x_positions L ncols ! col) [0..<epc]
                    (replicate ncols (base_y L) ! col)) [0..<c] ([], []) = (canvas, sols) \<and>
      map (\<lambda>d. (eq_num d, equations d)) canvas =
        concat (map (\<lambda>col. map (\<lambda>k. (start + col * epc + k + 1, fst (pe ! (col * epc + k))))
                            [0..<min (min epc 9) (length pe - col * epc)]) [0..<c])"
proof (induction c)
  case 0
  then show ?case by simp
next
  case (Suc c)
  then have c: "c < ncols" "c \<le> ncols" by simp_all
  from Suc.IH [OF c(2)] obtain canvas sols where
    st: "fold (\<lambda>col. column_loop_fixed L epc pe start col (x_positions L ncols ! col) [0..<epc]
                    (replicate ncols (base_y L) ! col)) [0..<c] ([], []) = (canvas, sols)"
    and pr: "map (\<lambda>d. (eq_num d, equations d)) canvas =
        concat (map (\<lambda>col. map (\<lambda>k. (start + col * epc + k + 1, fst (pe ! (col * epc + k))))
                            [0..<min (min epc 9) (length pe - col * epc)]) [0..<c])"
    by blast
  from column_fixed_letter [OF geo, of epc pe start c "x_positions L ncols ! c" canvas sols]
  obtain canvas' sols' where
    col: "column_loop_fixed L epc pe start c (x_positions L ncols ! c) [0..<epc] (base_y L)
            (canvas, sols) = (canvas', sols')"
    and pr': "map (\<lambda>d. (eq_num d, equations d)) canvas' =
       map (\<lambda>d. (eq_num d, equations d)) canvas @
       map (\<lambda>k. (start + c * epc + k + 1, fst (pe ! (c * epc + k))))
         [0..<min (min epc 9) (length pe - c * epc)]"
    by blast
  have "fold (\<lambda>col. column_loop_fixed L epc pe start col (x_positions L ncols ! col) [0..<epc]
                    (replicate ncols (base_y L) ! col)) [0..<Suc c] ([], []) = (canvas', sols')"
    unfolding fold_upt_Suc st using col c(1) by simp
  moreover have "map (\<lambda>d. (eq_num d, equations d)) canvas' =
        concat (map (\<lambda>col. map (\<lambda>k. (start + col * epc + k + 1, fst (pe ! (col * epc + k))))
                            [0..<min (min epc 9) (length pe - col * epc)]) [0..<Suc c])"
    unfolding pr' pr by simp
  ultimately show ?case by blast
qed

lemma map_shift_upt: "map (\<lambda>k. g (n + k)) [0..<m] = map g [n..<n + m]"
  by (induction m) simp_all

lemma concat_blocks:
  "concat (map (\<lambda>col. map (\<lambda>k. g (col * epc + k)) [0..<epc]) [0..<c]) = map g [0..<c * epc]"
proof (induction c)
  case 0
  then show ?case by simp
next
  case (Suc c)
  have "map (\<lambda>k. g (c * epc + k)) [0..<epc] = map g [c * epc..<c * epc + epc]"
    by (rule map_shift_upt)
  moreover have "[0..<c * epc + epc] = [0..<c * epc] @ [c * epc..<c * epc + epc]"
    by (rule upt_add_eq_append) simp
  ultimately show ?case using Suc by (simp add: add.commute)
qed

subsection \<open>Pages of the fixed-count layouts\<close>

lemma length_slice: "length (slice xs a b) = min (length xs) b - a"
  by (simp add: slice_def)

lemma page_fixed_letter:
  assumes geo: "base_y L = 792 - 25 * mm" "line_height L = 7 * mm" "footer_y L = 15 * mm"
  shows "map (\<lambda>d. (eq_num d, equations d)) (instructions (page_fixed L all_equations ncols epc p)) =
     concat (map (\<lambda>col. map (\<lambda>k. (p * ncols * epc + col * epc + k + 1,
                   fst (slice all_equations (p * ncols * epc) (p * ncols * epc + ncols * epc) !
                          (col * epc + k))))
                [0..<min (min epc 9)
                       (length (slice all_equations (p * ncols * epc)
                                 (p * ncols * epc + ncols * epc)) - col * epc)]) [0..<ncols])"
proof -
  let ?start = "p * ncols * epc"
  let ?pe = "slice all_equations ?start (?start + ncols * epc)"
  from columns_fixed_letter [OF geo, of ncols ncols epc ?pe ?start] obtain canvas sols where
    st: "fold (\<lambda>col. column_loop_fixed L epc ?pe ?start col (x_positions L ncols ! col) [0..<epc]
                    (replicate ncols (base_y L) ! col)) [0..<ncols] ([], []) = (canvas, sols)"
    and pr: "map (\<lambda>d. (eq_num d, equations d)) canvas =
        concat (map (\<lambda>col. map (\<lambda>k. (?start + col * epc + k + 1, fst (?pe ! (col * epc + k))))
                            [0..<min (min epc 9) (length ?pe - col * epc)]) [0..<ncols])"
    by blast
  have "instructions (page_fixed L all_equations ncols epc p) = canvas"
    by (simp add: page_fixed_def Let_def st)
  with pr show ?thesis by simp
qed

lemma page_fixed_exact:
  assumes geo: "base_y L = 792 - 25 * mm" "line_height L = 7 * mm" "footer_y L = 15 * mm"
    and epc: "epc \<le> 9" and data: "(p + 1) * (ncols * epc) \<le> length all_equations"
  shows "map (\<lambda>d. (eq_num d, equations d)) (instructions (page_fixed L all_equations ncols epc p)) =
     map (\<lambda>i. (i + 1, fst (all_equations ! i))) [p * (ncols * epc)..<(p + 1) * (ncols * epc)]"
proof -
  let ?start = "p * ncols * epc"
  let ?pe = "slice all_equations ?start (?start + ncols * epc)"
  let ?g = "\<lambda>i. (?start + i + 1, fst (?pe ! i))"
  have se: "?start + ncols * epc = (p + 1) * (ncols * epc)" by (simp add: algebra_simps)
  have len: "length ?pe = ncols * epc"
    using data unfolding length_slice se by (simp add: algebra_simps)
  have K: "min (min epc 9) (length ?pe - col * epc) = epc" if "col < ncols" for col
  proof -
    from that have "Suc col \<le> ncols" by simp
    then have "Suc col * epc \<le> ncols * epc" by (rule mult_le_mono1)
    then have "epc \<le> ncols * epc - col * epc" by simp
    with epc show ?thesis by (simp add: len)
  qed
  have "map (\<lambda>d. (eq_num d, equations d)) (instructions (page_fixed L all_equations ncols epc p)) =
      concat (map (\<lambda>col. map (\<lambda>k. ?g (col * epc + k))
                [0..<min (min epc 9) (length ?pe - col * epc)]) [0..<ncols])"
    unfolding page_fixed_letter [OF geo] by (simp add: add.assoc)
  also have "\<dots> = concat (map (\<lambda>col. map (\<lambda>k. ?g (col * epc + k)) [0..<epc]) [0..<ncols])"
    by (rule arg_cong [where f = concat], rule map_cong [OF refl]) (simp add: K)
  also have "\<dots> = map ?g [0..<ncols * epc]"
    by (rule concat_blocks)
  also have "\<dots> = map (\<lambda>i. (?start + i + 1, fst (all_equations ! (?start + i)))) [0..<ncols * epc]"
  proof (rule map_cong [OF refl])
    fix i assume "i \<in> set [0..<ncols * epc]"
    then have "i < length ?pe" by (simp add: len)
    from slice_nth [OF this] show "?g i = (?start + i + 1, fst (all_equations ! (?start + i)))"
      by simp
  qed
  also have "\<dots> = map (\<lambda>i. (i + 1, fst (all_equations ! i))) [?start..<?start + ncols * epc]"
    by (rule map_shift_upt [of "\<lambda>i. (i + 1, fst (all_equations ! i))"])
  finally show ?thesis by (simp add: algebra_simps)
qed

lemma linked_solutions:
  assumes "linked data 1 (canvas, sols)"
  shows "sols = map (\<lambda>n. snd (data ! (n - 1))) (map eq_num canvas)"
  using assms by (simp add: linked_def comp_def)

lemma page_fixed_footer_exact:
  assumes geo: "base_y L = 792 - 25 * mm" "line_height L = 7 * mm" "footer_y L = 15 * mm"
    and epc: "epc \<le> 9" and data: "(p + 1) * (ncols * epc) \<le> length all_equations"
  shows "footer_text (page_fixed L all_equations ncols epc p) =
     footer (map (\<lambda>i. snd (all_equations ! i)) [p * (ncols * epc)..<(p + 1) * (ncols * epc)])"
proof -
  from page_fixed_linked [of all_equations L ncols epc p] obtain sols where
    l: "linked all_equations 1 (instructions (page_fixed L all_equations ncols epc p), sols)"
    and f: "footer_text (page_fixed L all_equations ncols epc p) = footer sols"
    by blast
  have "map eq_num (instructions (page_fixed L all_equations ncols epc p)) =
      map fst (map (\<lambda>d. (eq_num d, equations d))
        (instructions (page_fixed L all_equations ncols epc p)))"
    by (simp add: comp_def)
  also have "\<dots> = map (\<lambda>i. i + 1) [p * (ncols * epc)..<(p + 1) * (ncols * epc)]"
    unfolding page_fixed_exact [OF geo epc data] by (simp add: comp_def)
  finally have "sols = map (\<lambda>i. snd (all_equations ! i)) [p * (ncols * epc)..<(p + 1) * (ncols * epc)]"
    unfolding linked_solutions [OF l] by (simp add: comp_def)
  with f show ?thesis by simp
qed

lemma calculate_layout_hannah_Inr:
  assumes "calculate_layout_hannah ncols epc m g = Inr L"
  shows "0 < ncols" "equations_per_page L = ncols * epc"
  using assms
  by (auto simp: calculate_layout_hannah_def letter_val py_truediv_def split: if_splits)

lemma columns_hannah_all:
  assumes data: "(page_num - 1) * equations_per_page L + ncols * epc \<le> length eqns"
  shows "c \<le> ncols \<Longrightarrow>
    \<exists>canvas sols.
      fold (\<lambda>col. column_loop_hannah L epc eqns page_num col (x_positions L ncols ! col) [0..<epc]
                    (replicate ncols (base_y L) ! col)) [0..<c] ([], []) = (canvas, sols) \<and>
      map (\<lambda>d. (eq_num d, equations d)) canvas =
        concat (map (\<lambda>col. map (\<lambda>k. ((page_num - 1) * equations_per_page L + (col * epc + k) + 1,
                       fst (eqns ! ((page_num - 1) * equations_per_page L + (col * epc + k)))))
                            [0..<epc]) [0..<c])"
proof (induction c)
  case 0
  then show ?case by simp
next
  case (Suc c)
  let ?off = "(page_num - 1) * equations_per_page L"
  from Suc.prems have c: "c < ncols" "c \<le> ncols" by simp_all
  from Suc.IH [OF c(2)] obtain canvas sols where
    st: "fold (\<lambda>col. column_loop_hannah L epc eqns page_num col (x_positions L ncols ! col) [0..<epc]
                    (replicate ncols (base_y L) ! col)) [0..<c] ([], []) = (canvas, sols)"
    and pr: "map (\<lambda>d. (eq_num d, equations d)) canvas =
        concat (map (\<lambda>col. map (\<lambda>k. (?off + (col * epc + k) + 1,
                       fst (eqns ! (?off + (col * epc + k))))) [0..<epc]) [0..<c])"
    by blast
  have inr: "\<forall>k. 0 \<le> k \<and> k < epc \<longrightarrow> ?off + c * epc + k < length eqns"
  proof (intro allI impI)
    fix k assume k: "0 \<le> k \<and> k < epc"
    from c(1) have "Suc c \<le> ncols" by simp
    then have "Suc c * epc \<le> ncols * epc" by (rule mult_le_mono1)
    with k have "c * epc + k < ncols * epc" by simp
    with data show "?off + c * epc + k < length eqns" by simp
  qed
  from column_loop_hannah_all [of 0 epc page_num L c epc eqns "x_positions L ncols ! c" "base_y L"
      canvas sols, OF _ inr]
  obtain canvas' sols' where
    col: "column_loop_hannah L epc eqns page_num c (x_positions L ncols ! c) [0..<epc] (base_y L)
            (canvas, sols) = (canvas', sols')"
    and pr': "map (\<lambda>d. (eq_num d, equations d)) canvas' =
       map (\<lambda>d. (eq_num d, equations d)) canvas @
       map (\<lambda>k. (?off + c * epc + k + 1, fst (eqns ! (?off + c * epc + k)))) [0..<epc]"
    by auto
  have "fold (\<lambda>col. column_loop_hannah L epc eqns page_num col (x_positions L ncols ! col) [0..<epc]
                    (replicate ncols (base_y L) ! col)) [0..<Suc c] ([], []) = (canvas', sols')"
    unfolding fold_upt_Suc st using col c(1) by simp
  moreover have "map (\<lambda>d. (eq_num d, equations d)) canvas' =
        concat (map (\<lambda>col. map (\<lambda>k. (?off + (col * epc + k) + 1,
                       fst (eqns ! (?off + (col * epc + k))))) [0..<epc]) [0..<Suc c])"
    unfolding pr' pr by (simp add: add.assoc)
  ultimately show ?case by blast
qed

lemma print_page_exact:
  assumes data: "(page_num - 1) * equations_per_page L + ncols * epc \<le> length eqns"
  shows "map (\<lambda>d. (eq_num d, equations d)) (instructions (print_page ncols epc L eqns page_num)) =
     map (\<lambda>i. ((page_num - 1) * equations_per_page L + i + 1,
                fst (eqns ! ((page_num - 1) * equations_per_page L + i)))) [0..<ncols * epc]"
proof -
  from columns_hannah_all [OF data, of ncols] obtain canvas sols where
    st: "fold (\<lambda>col. column_loop_hannah L epc eqns page_num col (x_positions L ncols ! col) [0..<epc]
                    (replicate ncols (base_y L) ! col)) [0..<ncols] ([], []) = (canvas, sols)"
    and pr: "map (\<lambda>d. (eq_num d, equations d)) canvas =
        concat (map (\<lambda>col. map (\<lambda>k. ((page_num - 1) * equations_per_page L + (col * epc + k) + 1,
                       fst (eqns ! ((page_num - 1) * equations_per_page L + (col * epc + k)))))
                            [0..<epc]) [0..<ncols])"
    by blast
  have "instructions (print_page ncols epc L eqns page_num) = canvas"
    by (simp add: print_page_def Let_def st)
  with pr show ?thesis
    using concat_blocks [of "\<lambda>i. ((page_num - 1) * equations_per_page L + i + 1,
                fst (eqns ! ((page_num - 1) * equations_per_page L + i)))" epc ncols]
    by simp
qed

lemma pages_hannah_first_exact:
  assumes epp: "equations_per_page L = ncols * epc"
    and data: "ncols * epc \<le> length all_equations" and np: "0 < npages"
  shows "map (\<lambda>d. (eq_num d, equations d))
           (instructions (pages_hannah L all_equations ncols epc npages ! 0)) =
         map (\<lambda>i. (i + 1, fst (all_equations ! i))) [0..<ncols * epc]"
proof -
  let ?pe = "slice all_equations 0 (ncols * epc)"
  have first: "pages_hannah L all_equations ncols epc npages ! 0 = print_page ncols epc L ?pe 1"
    using np by (simp add: pages_hannah_def epp Let_def)
  have len: "length ?pe = ncols * epc"
    using data by (simp add: length_slice)
  then have "(1 - 1) * equations_per_page L + ncols * epc \<le> length ?pe" by simp
  from print_page_exact [OF this] have
    "map (\<lambda>d. (eq_num d, equations d)) (instructions (print_page ncols epc L ?pe 1)) =
     map (\<lambda>i. (i + 1, fst (?pe ! i))) [0..<ncols * epc]"
    by simp
  also have "\<dots> = map (\<lambda>i. (i + 1, fst (all_equations ! i))) [0..<ncols * epc]"
  proof (rule map_cong [OF refl])
    fix i assume "i \<in> set [0..<ncols * epc]"
    then have "i < length ?pe" by (simp add: len)
    from slice_nth [OF this] show "(i + 1, fst (?pe ! i)) = (i + 1, fst (all_equations ! i))"
      by simp
  qed
  finally show ?thesis by (simp only: first)
qed

text \<open>
  On every later page \<open>print_page\<close> indexes the page's own slice with the document-wide
  number, which is past the end of the slice: nothing is drawn.
\<close>

lemma column_loop_hannah_skip:
  "length eqns \<le> (page_num - 1) * equations_per_page L + col * epc \<Longrightarrow>
   column_loop_hannah L epc eqns page_num col x idxs y st = st"
  by (cases idxs; cases st) simp_all

lemma print_page_later_empty:
  assumes "length eqns \<le> (page_num - 1) * equations_per_page L"
  shows "print_page ncols epc L eqns page_num = \<lparr>instructions = [], footer_text = ''''\<rparr>"
proof -
  have "fold (\<lambda>col. column_loop_hannah L epc eqns page_num col (x_positions L ncols ! col) [0..<epc]
                (replicate ncols (base_y L) ! col)) cols st = st" for cols st
    using assms by (induction cols arbitrary: st) (simp_all add: column_loop_hannah_skip)
  then show ?thesis
    by (simp add: print_page_def footer_def)
qed

lemma pages_hannah_later_empty:
  assumes "0 < p" "p < npages"
  shows "pages_hannah L all_equations ncols epc npages ! p =
           \<lparr>instructions = [], footer_text = ''''\<rparr>"
proof -
  let ?epp = "equations_per_page L"
  have "length (slice all_equations (p * ?epp) ((p + 1) * ?epp)) \<le> ?epp"
    by (simp add: length_slice)
  also have "?epp \<le> p * ?epp" using assms(1) by simp
  finally have "length (slice all_equations (p * ?epp) ((p + 1) * ?epp)) \<le> (p + 1 - 1) * ?epp"
    by simp
  from print_page_later_empty [OF this] show ?thesis
    using assms(2) by (simp add: pages_hannah_def Let_def)
qed

subsection \<open>Columns of the dynamic-fit layout\<close>

lemma calculate_layout_dynamic_Inr:
  assumes "calculate_layout_dynamic ncols = Inr L"
  shows "0 < ncols" "base_y L = 792 - 25 * mm" "line_height L = 7 * mm" "footer_y L = 15 * mm"
    "equations_per_column L = \<lfloor>(base_y L - footer_y L) / (2 * line_height L)\<rfloor>"
  using assms
  by (auto simp: calculate_layout_dynamic_def letter_val py_truediv_def Let_def split: if_splits)

lemma derived_count_letter:
  assumes "base_y L = 792 - 25 * mm" "line_height L = 7 * mm" "footer_y L = 15 * mm"
  shows "\<lfloor>(base_y L - footer_y L) / (2 * line_height L)\<rfloor> = 17"
  by (simp add: assms mm_val floor_eq_iff)

lemma column_dynamic_empty:
  "length (slice pd (col * epc) ((col + 1) * epc)) = 0 \<Longrightarrow>
   column_dynamic L pd start ncols epc col st = Inr st"
  by (simp add: column_dynamic_def Let_def del: length_0_conv)

lemma column_dynamic_placed:
  assumes col: "col < ncols"
    and n: "0 < length (slice pd (col * epc) ((col + 1) * epc))"
  shows "\<exists>m. 0 < m \<and> m \<le> length (slice pd (col * epc) ((col + 1) * epc)) \<and>
     column_dynamic L pd start ncols epc col (canvas, sols) =
       Inr (canvas @
              map (\<lambda>k. \<lparr>eq_num = start + (col * epc + k) + 1,
                         origin_x = x_positions L ncols ! col,
                         origin_y = base_y L - of_nat k *
                           (2 * line_height L +
                            (base_y L - footer_y L - 10 * mm -
                               of_nat (length (slice pd (col * epc) ((col + 1) * epc))) *
                                 (2 * line_height L)) /
                              of_nat (length (slice pd (col * epc) ((col + 1) * epc)))),
                         equations = fst (slice pd (col * epc) ((col + 1) * epc) ! k)\<rparr>) [0..<m],
            sols @ map (\<lambda>k. snd (slice pd (col * epc) ((col + 1) * epc) ! k)) [0..<m]) \<and>
     (\<forall>j. 0 < j \<and> j < m \<longrightarrow>
        \<not> base_y L - of_nat j *
            (2 * line_height L +
             (base_y L - footer_y L - 10 * mm -
                of_nat (length (slice pd (col * epc) ((col + 1) * epc))) * (2 * line_height L)) /
               of_nat (length (slice pd (col * epc) ((col + 1) * epc))))
          < footer_y L + 15 * mm) \<and>
     (m < length (slice pd (col * epc) ((col + 1) * epc)) \<longrightarrow>
        base_y L - of_nat m *
            (2 * line_height L +
             (base_y L - footer_y L - 10 * mm -
                of_nat (length (slice pd (col * epc) ((col + 1) * epc))) * (2 * line_height L)) /
               of_nat (length (slice pd (col * epc) ((col + 1) * epc))))
          < footer_y L + 15 * mm)"
proof -
  let ?cd = "slice pd (col * epc) ((col + 1) * epc)"
  let ?n = "length ?cd"
  let ?sp = "(base_y L - footer_y L - 10 * mm - of_nat ?n * (2 * line_height L)) / of_nat ?n"
  have run: "column_dynamic L pd start ncols epc col (canvas, sols) =
      Inr (item_loop_dynamic L ?cd start (col * epc) (x_positions L ncols ! col) ?sp
             [0..<?n] (base_y L) (canvas, sols))"
    using n col
    by (simp add: column_dynamic_def Let_def spacing_height_of_Inr del: length_0_conv)
  from item_loop_dynamic_placed [of 0 ?n L ?cd start "col * epc" "x_positions L ncols ! col" ?sp
      "base_y L" canvas sols] n
  obtain m where m: "0 < m" "m \<le> ?n"
    "item_loop_dynamic L ?cd start (col * epc) (x_positions L ncols ! col) ?sp [0..<?n] (base_y L)
       (canvas, sols) =
     (canvas @
        map (\<lambda>k. \<lparr>eq_num = start + (col * epc + k) + 1, origin_x = x_positions L ncols ! col,
                   origin_y = base_y L - of_nat (k - 0) * (2 * line_height L + ?sp),
                   equations = fst (?cd ! k)\<rparr>) [0..<m],
      sols @ map (\<lambda>k. snd (?cd ! k)) [0..<m])"
    "\<forall>j. 0 < j \<and> j < m \<longrightarrow>
       \<not> base_y L - of_nat (j - 0) * (2 * line_height L + ?sp) < footer_y L + 15 * mm"
    "m < ?n \<longrightarrow> base_y L - of_nat (m - 0) * (2 * line_height L + ?sp) < footer_y L + 15 * mm"
    by auto
  from m(3) have res: "column_dynamic L pd start ncols epc col (canvas, sols) =
      Inr (canvas @
        map (\<lambda>k. \<lparr>eq_num = start + (col * epc + k) + 1, origin_x = x_positions L ncols ! col,
                   origin_y = base_y L - of_nat k * (2 * line_height L + ?sp),
                   equations = fst (?cd ! k)\<rparr>) [0..<m],
      sols @ map (\<lambda>k. snd (?cd ! k)) [0..<m])"
    unfolding run by (simp only: diff_zero)
  from m(4) have a: "\<forall>j. 0 < j \<and> j < m \<longrightarrow>
       \<not> base_y L - of_nat j * (2 * line_height L + ?sp) < footer_y L + 15 * mm"
    by (simp only: diff_zero)
  from m(5) have b: "m < ?n \<longrightarrow>
       base_y L - of_nat m * (2 * line_height L + ?sp) < footer_y L + 15 * mm"
    by (simp only: diff_zero)
  from m(1) m(2) res a b show ?thesis by blast
qed

lemma dynamic_advance:
  fixes n :: nat
  assumes "base_y L = 792 - 25 * mm" "line_height L = 7 * mm" "footer_y L = 15 * mm" "0 < n"
  shows "base_y L - of_nat j *
            (2 * line_height L +
             (base_y L - footer_y L - 10 * mm - of_nat n * (2 * line_height L)) / of_nat n)
          < footer_y L + 15 * mm \<longleftrightarrow> (80784 :: rat) * of_nat n < 82584 * of_nat j"
proof -
  have n: "(0::rat) < of_nat n" using assms(4) by simp
  have "2 * line_height L +
          (base_y L - footer_y L - 10 * mm - of_nat n * (2 * line_height L)) / of_nat n =
        (82584 / 127) / of_nat n"
    using n by (simp add: assms mm_val field_simps)
  moreover have "(792 - 25 * mm - of_nat j * ((82584 / 127) / of_nat n) < 15 * mm + 15 * mm) =
      ((80784 :: rat) * of_nat n < 82584 * of_nat j)"
    using n by (simp add: mm_val field_simps)
  ultimately show ?thesis by (simp add: assms(1,3))
qed

lemma dynamic_fits:
  fixes n j :: nat
  assumes "n \<le> 45" "j < n"
  shows "\<not> (80784 :: rat) * of_nat n < 82584 * of_nat j"
proof -
  from assms have "82584 * j + 1800 * n \<le> 82584 * j + 82584" by simp
  also from assms(2) have "\<dots> \<le> 82584 * n" by simp
  finally have "82584 * j \<le> 80784 * n" by simp
  then have "(of_nat (82584 * j) :: rat) \<le> of_nat (80784 * n)"
    by (simp only: of_nat_le_iff)
  then show ?thesis by simp
qed

lemma dynamic_overflow:
  fixes j :: nat
  shows "j \<le> 44 \<Longrightarrow> \<not> (80784 :: rat) * of_nat (46::nat) < 82584 * of_nat j"
    and "(80784 :: rat) * of_nat (46::nat) < 82584 * of_nat (45::nat)"
proof -
  show "(80784 :: rat) * of_nat (46::nat) < 82584 * of_nat (45::nat)" by simp
  assume "j \<le> 44"
  then have "(of_nat j :: rat) \<le> of_nat 44" by (simp only: of_nat_le_iff)
  then show "\<not> (80784 :: rat) * of_nat (46::nat) < 82584 * of_nat j" by simp
qed

lemma column_dynamic_letter:
  assumes geo: "base_y L = 792 - 25 * mm" "line_height L = 7 * mm" "footer_y L = 15 * mm"
    and col: "col < ncols"
    and K: "length (slice pd (col * epc) ((col + 1) * epc)) \<le> 45 \<and>
              K = length (slice pd (col * epc) ((col + 1) * epc)) \<or>
            length (slice pd (col * epc) ((col + 1) * epc)) = 46 \<and> K = 45"
  shows "\<exists>canvas' sols'.
     column_dynamic L pd start ncols epc col (canvas, sols) = Inr (canvas', sols') \<and>
     map (\<lambda>d. (eq_num d, equations d)) canvas' =
       map (\<lambda>d. (eq_num d, equations d)) canvas @
       map (\<lambda>k. (start + (col * epc + k) + 1, fst (slice pd (col * epc) ((col + 1) * epc) ! k)))
         [0..<K] \<and>
     sols' = sols @ map (\<lambda>k. snd (slice pd (col * epc) ((col + 1) * epc) ! k)) [0..<K]"
proof (cases "length (slice pd (col * epc) ((col + 1) * epc)) = 0")
  case True
  with K have "K = 0" by auto
  with column_dynamic_empty [OF True] show ?thesis by simp
next
  case False
  let ?cd = "slice pd (col * epc) ((col + 1) * epc)"
  let ?n = "length ?cd"
  from False have n: "0 < ?n" by simp
  from column_dynamic_placed [OF col n, of L start canvas sols,
      unfolded dynamic_advance [OF geo n]]
  obtain m where m: "0 < m" "m \<le> ?n"
    "column_dynamic L pd start ncols epc col (canvas, sols) =
       Inr (canvas @
              map (\<lambda>k. \<lparr>eq_num = start + (col * epc + k) + 1,
                         origin_x = x_positions L ncols ! col,
                         origin_y = base_y L - of_nat k *
                           (2 * line_height L +
                            (base_y L - footer_y L - 10 * mm - of_nat ?n * (2 * line_height L)) /
                              of_nat ?n),
                         equations = fst (?cd ! k)\<rparr>) [0..<m],
            sols @ map (\<lambda>k. snd (?cd ! k)) [0..<m])"
    "\<forall>j. 0 < j \<and> j < m \<longrightarrow> \<not> (80784 :: rat) * of_nat ?n < 82584 * of_nat j"
    "m < ?n \<longrightarrow> (80784 :: rat) * of_nat ?n < 82584 * of_nat m"
    by blast
  have "m = K"
  proof (cases "?n \<le> 45")
    case True
    with K have k: "K = ?n" by auto
    have "\<not> m < ?n"
    proof
      assume "m < ?n"
      with m(5) dynamic_fits [OF True this] show False by blast
    qed
    with m(2) k show ?thesis by simp
  next
    case False
    with K have k: "?n = 46" "K = 45" by auto
    have "m \<noteq> 46"
    proof
      assume "m = 46"
      then have "0 < (45::nat) \<and> 45 < m" by simp
      with m(4) dynamic_overflow(2) show False unfolding k(1) by blast
    qed
    moreover have "\<not> m < 45"
    proof
      assume "m < 45"
      then have "m \<le> 44" "m < ?n" using k(1) by simp_all
      with m(5) dynamic_overflow(1) [of m] show False unfolding k(1) by blast
    qed
    ultimately show ?thesis using m(2) k by simp
  qed
  with m(3) show ?thesis by (simp add: comp_def)
qed

lemma columns_dynamic_letter:
  assumes geo: "base_y L = 792 - 25 * mm" "line_height L = 7 * mm" "footer_y L = 15 * mm"
  shows "\<forall>col\<in>set cols. col < ncols \<and> length (slice pd (col * epc) ((col + 1) * epc)) \<le> 45 \<Longrightarrow>
    \<exists>canvas' sols'.
      columns_dynamic L pd start ncols epc cols (canvas, sols) = Inr (canvas', sols') \<and>
      map (\<lambda>d. (eq_num d, equations d)) canvas' =
        map (\<lambda>d. (eq_num d, equations d)) canvas @
        concat (map (\<lambda>col. map (\<lambda>k. (start + (col * epc + k) + 1,
                               fst (slice pd (col * epc) ((col + 1) * epc) ! k)))
                      [0..<length (slice pd (col * epc) ((col + 1) * epc))]) cols)"
proof (induction cols arbitrary: canvas sols)
  case Nil
  then show ?case by simp
next
  case (Cons col cols)
  from Cons.prems have c: "col < ncols" "length (slice pd (col * epc) ((col + 1) * epc)) \<le> 45"
    by simp_all
  from column_dynamic_letter [OF geo c(1), of pd epc _ start canvas sols] c(2)
  obtain canvas1 sols1 where
    one: "column_dynamic L pd start ncols epc col (canvas, sols) = Inr (canvas1, sols1)"
    and pr1: "map (\<lambda>d. (eq_num d, equations d)) canvas1 =
       map (\<lambda>d. (eq_num d, equations d)) canvas @
       map (\<lambda>k. (start + (col * epc + k) + 1, fst (slice pd (col * epc) ((col + 1) * epc) ! k)))
         [0..<length (slice pd (col * epc) ((col + 1) * epc))]"
    by blast
  from Cons.prems have
    "\<forall>col\<in>set cols. col < ncols \<and> length (slice pd (col * epc) ((col + 1) * epc)) \<le> 45"
    by simp
  from Cons.IH [OF this, of canvas1 sols1] obtain canvas' sols' where
    rest: "columns_dynamic L pd start ncols epc cols (canvas1, sols1) = Inr (canvas', sols')"
    and pr: "map (\<lambda>d. (eq_num d, equations d)) canvas' =
        map (\<lambda>d. (eq_num d, equations d)) canvas1 @
        concat (map (\<lambda>col. map (\<lambda>k. (start + (col * epc + k) + 1,
                               fst (slice pd (col * epc) ((col + 1) * epc) ! k)))
                      [0..<length (slice pd (col * epc) ((col + 1) * epc))]) cols)"
    by blast
  from one rest have "columns_dynamic L pd start ncols epc (col # cols) (canvas, sols) =
      Inr (canvas', sols')"
    by simp
  with pr pr1 show ?case by simp
qed

lemma slice_slice_nth:
  assumes "length pd = ncols * epc" "col < ncols" "k < epc"
  shows "length (slice pd (col * epc) ((col + 1) * epc)) = epc"
    and "slice pd (col * epc) ((col + 1) * epc) ! k = pd ! (col * epc + k)"
proof -
  from assms(2) have "Suc col \<le> ncols" by simp
  then have le: "Suc col * epc \<le> ncols * epc" by (rule mult_le_mono1)
  then show len: "length (slice pd (col * epc) ((col + 1) * epc)) = epc"
    by (simp add: length_slice assms(1))
  with assms(3) have "k < length (slice pd (col * epc) ((col + 1) * epc))" by simp
  from slice_nth [OF this] show "slice pd (col * epc) ((col + 1) * epc) ! k = pd ! (col * epc + k)"
    by simp
qed

lemma page_dynamic_exact:
  assumes geo: "base_y L = 792 - 25 * mm" "line_height L = 7 * mm" "footer_y L = 15 * mm"
    and epc: "epc \<le> 45" and data: "(p + 1) * (ncols * epc) \<le> length all_equations"
  shows "\<exists>pg. page_dynamic L all_equations ncols epc p = Inr pg \<and>
     map (\<lambda>d. (eq_num d, equations d)) (instructions pg) =
       map (\<lambda>i. (i + 1, fst (all_equations ! i))) [p * (ncols * epc)..<(p + 1) * (ncols * epc)]"
proof -
  let ?start = "p * ncols * epc"
  let ?pd = "slice all_equations ?start (?start + ncols * epc)"
  let ?cd = "\<lambda>col. slice ?pd (col * epc) ((col + 1) * epc)"
  let ?g = "\<lambda>i. (?start + i + 1, fst (?pd ! i))"
  have se: "?start + ncols * epc = (p + 1) * (ncols * epc)" by (simp add: algebra_simps)
  have len: "length ?pd = ncols * epc"
    using data unfolding length_slice se by (simp add: algebra_simps)
  have cols: "\<forall>col\<in>set [0..<ncols]. col < ncols \<and> length (?cd col) \<le> 45"
  proof
    fix col assume "col \<in> set [0..<ncols]"
    then have c: "col < ncols" by simp
    have "length (?cd col) \<le> epc" by (simp add: length_slice)
    with epc c show "col < ncols \<and> length (?cd col) \<le> 45" by simp
  qed
  from columns_dynamic_letter [OF geo cols, of ?start "[]" "[]"] obtain canvas sols where
    run: "columns_dynamic L ?pd ?start ncols epc [0..<ncols] ([], []) = Inr (canvas, sols)"
    and pr: "map (\<lambda>d. (eq_num d, equations d)) canvas =
        concat (map (\<lambda>col. map (\<lambda>k. (?start + (col * epc + k) + 1, fst (?cd col ! k)))
                      [0..<length (?cd col)]) [0..<ncols])"
    by auto
  have "concat (map (\<lambda>col. map (\<lambda>k. (?start + (col * epc + k) + 1, fst (?cd col ! k)))
                      [0..<length (?cd col)]) [0..<ncols]) =
        concat (map (\<lambda>col. map (\<lambda>k. ?g (col * epc + k)) [0..<epc]) [0..<ncols])"
  proof (rule arg_cong [where f = concat], rule map_cong [OF refl])
    fix col assume "col \<in> set [0..<ncols]"
    then have c: "col < ncols" by simp
    have l: "length (?cd col) = epc"
    proof (cases "epc = 0")
      case True
      then show ?thesis by (simp add: length_slice)
    next
      case False
      then have "0 < epc" by simp
      from slice_slice_nth(1) [OF len c this] show ?thesis .
    qed
    show "map (\<lambda>k. (?start + (col * epc + k) + 1, fst (?cd col ! k))) [0..<length (?cd col)] =
          map (\<lambda>k. ?g (col * epc + k)) [0..<epc]"
      unfolding l
    proof (rule map_cong [OF refl])
      fix k assume "k \<in> set [0..<epc]"
      then have "k < epc" by simp
      from slice_slice_nth(2) [OF len c this]
      show "(?start + (col * epc + k) + 1, fst (?cd col ! k)) = ?g (col * epc + k)"
        by simp
    qed
  qed
  also have "\<dots> = map ?g [0..<ncols * epc]"
    by (rule concat_blocks)
  also have "\<dots> = map (\<lambda>i. (?start + i + 1, fst (all_equations ! (?start + i)))) [0..<ncols * epc]"
  proof (rule map_cong [OF refl])
    fix i assume "i \<in> set [0..<ncols * epc]"
    then have "i < length ?pd" by (simp add: len)
    from slice_nth [OF this] show "?g i = (?start + i + 1, fst (all_equations ! (?start + i)))"
      by simp
  qed
  also have "\<dots> = map (\<lambda>i. (i + 1, fst (all_equations ! i))) [?start..<?start + ncols * epc]"
    by (rule map_shift_upt [of "\<lambda>i. (i + 1, fst (all_equations ! i))"])
  finally have "concat (map (\<lambda>col. map (\<lambda>k. (?start + (col * epc + k) + 1, fst (?cd col ! k)))
                      [0..<length (?cd col)]) [0..<ncols]) =
      map (\<lambda>i. (i + 1, fst (all_equations ! i))) [p * (ncols * epc)..<(p + 1) * (ncols * epc)]"
    by (simp add: algebra_simps)
  with pr have "map (\<lambda>d. (eq_num d, equations d)) canvas =
      map (\<lambda>i. (i + 1, fst (all_equations ! i))) [p * (ncols * epc)..<(p + 1) * (ncols * epc)]"
    by simp
  moreover have "page_dynamic L all_equations ncols epc p =
      Inr \<lparr>instructions = canvas, footer_text = footer sols\<rparr>"
    by (simp add: page_dynamic_def Let_def run)
  ultimately show ?thesis by simp
qed

subsection \<open>Documents and the example input\<close>

lemma length_sample_systems [simp]: "length (sample_systems n) = n"
  by (simp add: sample_systems_def)

lemma sample_systems_nth:
  "i < n \<Longrightarrow> sample_systems n ! i =
     ([''x + y = 1'', ''x - y = '' @ str_int (2 * int i + 1)], (int i + 1, - int i))"
  by (simp add: sample_systems_def)

lemma calculate_layout_fixed_ex:
  "0 < ncols \<Longrightarrow> \<exists>L. calculate_layout_fixed ncols m g = Inr L"
  by (simp add: calculate_layout_fixed_def letter_val py_truediv_def)

lemma calculate_layout_hannah_ex:
  "0 < ncols \<Longrightarrow> \<exists>L. calculate_layout_hannah ncols epc m g = Inr L"
  by (simp add: calculate_layout_hannah_def letter_val py_truediv_def)

lemma calculate_layout_dynamic_ex:
  "0 < ncols \<Longrightarrow> \<exists>L. calculate_layout_dynamic ncols = Inr L"
  by (simp add: calculate_layout_dynamic_def letter_val py_truediv_def Let_def)

lemma map_eq_num:
  "map (\<lambda>d. (eq_num d, equations d)) ins = map (\<lambda>i. (i + 1, f i)) is \<Longrightarrow>
   map eq_num ins = map Suc is"
proof -
  assume a: "map (\<lambda>d. (eq_num d, equations d)) ins = map (\<lambda>i. (i + 1, f i)) is"
  have "map eq_num ins = map fst (map (\<lambda>d. (eq_num d, equations d)) ins)"
    by (simp add: comp_def)
  also have "\<dots> = map Suc is"
    unfolding a by (simp add: comp_def)
  finally show ?thesis .
qed

lemma drawn_numbers_document_fixed:
  assumes L: "calculate_layout_fixed ncols (15 * mm) (10 * mm) = Inr L"
    and epc: "epc \<le> 9" and data: "npages * (ncols * epc) \<le> length all_equations"
  shows "drawn_numbers (document_fixed ncols epc npages all_equations) =
     Inr (map (\<lambda>p. [Suc (p * (ncols * epc))..<Suc ((p + 1) * (ncols * epc))]) [0..<npages])"
proof -
  note geo = calculate_layout_fixed_Inr(2-4) [OF L]
  have "map eq_num (instructions (page_fixed L all_equations ncols epc p)) =
      [Suc (p * (ncols * epc))..<Suc ((p + 1) * (ncols * epc))]" if "p < npages" for p
  proof -
    from that have "Suc p \<le> npages" by simp
    then have "Suc p * (ncols * epc) \<le> npages * (ncols * epc)" by (rule mult_le_mono1)
    with data have "(p + 1) * (ncols * epc) \<le> length all_equations" by simp
    from map_eq_num [OF page_fixed_exact [OF geo epc this]] show ?thesis
      by (simp add: map_Suc_upt)
  qed
  then show ?thesis
    by (simp add: drawn_numbers_def document_fixed_def L)
qed

lemma footers_document_fixed:
  assumes L: "calculate_layout_fixed ncols (15 * mm) (10 * mm) = Inr L"
    and epc: "epc \<le> 9" and data: "npages * (ncols * epc) \<le> length all_equations"
  shows "footers (document_fixed ncols epc npages all_equations) =
     Inr (map (\<lambda>p. footer (map (\<lambda>i. snd (all_equations ! i))
                          [p * (ncols * epc)..<(p + 1) * (ncols * epc)])) [0..<npages])"
proof -
  note geo = calculate_layout_fixed_Inr(2-4) [OF L]
  have "footer_text (page_fixed L all_equations ncols epc p) =
      footer (map (\<lambda>i. snd (all_equations ! i)) [p * (ncols * epc)..<(p + 1) * (ncols * epc)])"
    if "p < npages" for p
  proof -
    from that have "Suc p \<le> npages" by simp
    then have "Suc p * (ncols * epc) \<le> npages * (ncols * epc)" by (rule mult_le_mono1)
    with data have "(p + 1) * (ncols * epc) \<le> length all_equations" by simp
    from page_fixed_footer_exact [OF geo epc this] show ?thesis .
  qed
  then show ?thesis
    by (simp add: footers_def document_fixed_def L)
qed

lemma upt_two: "[0..<2] = [0, Suc 0]"
  by (simp add: upt_rec)

text \<open>
  C3, as amended. The pages of a fixed-count layout are cut from the input by
  arithmetic: with \<open>itemsPerPage = numColumns * itemsPerColumn\<close>, page \<open>p\<close> (from 0) of
  \<open>generate_liner_equation_system.py\<close> draws exactly the systems of the slice
  \<open>[p * itemsPerPage, (p + 1) * itemsPerPage)\<close>, numbered with their document-wide
  positions, whenever \<open>itemsPerColumn \<le> 9\<close> (on the letter page a column stops after its
  ninth system); the first page of \<open>Hannah/generate_equation_system.py\<close> draws exactly its
  slice; and for 3 columns, 5 per column and 2 pages the 30 systems are drawn as 1 to 15 on
  page 1 and 16 to 30 on page 2 of \<open>generate_liner_equation_system.py\<close>.
\<close>

theorem fixed_count_pages:
  "(calculate_layout_fixed ncols (15 * mm) (10 * mm) = Inr L \<and> epc \<le> 9 \<and>
      (p + 1) * (ncols * epc) \<le> length all_equations \<longrightarrow>
      map (\<lambda>d. (eq_num d, equations d)) (instructions (page_fixed L all_equations ncols epc p)) =
        map (\<lambda>i. (i + 1, fst (all_equations ! i)))
          [p * (ncols * epc)..<(p + 1) * (ncols * epc)]) \<and>
   (calculate_layout_hannah ncols epc (15 * mm) (10 * mm) = Inr LH \<and>
      ncols * epc \<le> length all_equations \<and> 0 < npages \<longrightarrow>
      equations_per_page LH = ncols * epc \<and>
      map (\<lambda>d. (eq_num d, equations d))
        (instructions (pages_hannah LH all_equations ncols epc npages ! 0)) =
        map (\<lambda>i. (i + 1, fst (all_equations ! i))) [0..<ncols * epc]) \<and>
   (length all_equations = 3 * 5 * 2 \<longrightarrow>
      drawn_numbers (document_fixed 3 5 2 all_equations) = Inr [[1..<16], [16..<31]])"
proof (intro conjI impI)
  assume a: "calculate_layout_fixed ncols (15 * mm) (10 * mm) = Inr L \<and> epc \<le> 9 \<and>
      (p + 1) * (ncols * epc) \<le> length all_equations"
  note geo = calculate_layout_fixed_Inr(2-4) [of ncols "15 * mm" "10 * mm" L]
  from a show "map (\<lambda>d. (eq_num d, equations d))
      (instructions (page_fixed L all_equations ncols epc p)) =
      map (\<lambda>i. (i + 1, fst (all_equations ! i))) [p * (ncols * epc)..<(p + 1) * (ncols * epc)]"
    by (intro page_fixed_exact geo) simp_all
next
  assume a: "calculate_layout_hannah ncols epc (15 * mm) (10 * mm) = Inr LH \<and>
      ncols * epc \<le> length all_equations \<and> 0 < npages"
  then show "equations_per_page LH = ncols * epc"
    using calculate_layout_hannah_Inr(2) by blast
  with a show "map (\<lambda>d. (eq_num d, equations d))
        (instructions (pages_hannah LH all_equations ncols epc npages ! 0)) =
        map (\<lambda>i. (i + 1, fst (all_equations ! i))) [0..<ncols * epc]"
    by (intro pages_hannah_first_exact) simp_all
next
  assume len: "length all_equations = 3 * 5 * 2"
  obtain L where L: "calculate_layout_fixed 3 (15 * mm) (10 * mm) = Inr L"
    using calculate_layout_fixed_ex [of 3 "15 * mm" "10 * mm"] by auto
  from drawn_numbers_document_fixed [OF L, of 5 2 all_equations] len
  show "drawn_numbers (document_fixed 3 5 2 all_equations) = Inr [[1..<16], [16..<31]]"
    by (simp add: upt_two)
qed

theorem fixed_count_pages_witness:
  "(\<exists>L. calculate_layout_fixed 3 (15 * mm) (10 * mm) = Inr L \<and> (5::nat) \<le> 9 \<and>
        (1 + 1) * (3 * 5) \<le> length (sample_systems 30) \<and>
        map eq_num (instructions (page_fixed L (sample_systems 30) 3 5 1)) = [16..<31]) \<and>
   (\<exists>LH. calculate_layout_hannah 3 5 (15 * mm) (10 * mm) = Inr LH \<and>
        3 * 5 \<le> length (sample_systems 30) \<and> (0::nat) < 2 \<and>
        map eq_num (instructions (pages_hannah LH (sample_systems 30) 3 5 2 ! 0)) = [1..<16]) \<and>
   length (sample_systems 30) = 3 * 5 * 2 \<and>
   drawn_numbers (document_fixed 3 5 2 (sample_systems 30)) = Inr [[1..<16], [16..<31]]"
proof -
  obtain L where L: "calculate_layout_fixed 3 (15 * mm) (10 * mm) = Inr L"
    using calculate_layout_fixed_ex [of 3 "15 * mm" "10 * mm"] by auto
  obtain LH where LH: "calculate_layout_hannah 3 5 (15 * mm) (10 * mm) = Inr LH"
    using calculate_layout_hannah_ex [of 3 5 "15 * mm" "10 * mm"] by auto
  note t = fixed_count_pages [of 3 L 5 1 "sample_systems 30" LH 2]
  have h1: "calculate_layout_fixed 3 (15 * mm) (10 * mm) = Inr L \<and> (5::nat) \<le> 9 \<and>
      (1 + 1) * (3 * 5) \<le> length (sample_systems 30)"
    using L by simp
  have h2: "calculate_layout_hannah 3 5 (15 * mm) (10 * mm) = Inr LH \<and>
      3 * 5 \<le> length (sample_systems 30) \<and> (0::nat) < 2"
    using LH by simp
  have h3: "length (sample_systems 30) = 3 * 5 * 2" by simp
  from t [THEN conjunct1, rule_format, OF h1]
  have "map eq_num (instructions (page_fixed L (sample_systems 30) 3 5 1)) = map Suc [15..<30]"
    by (intro map_eq_num [where f = "\<lambda>i. fst (sample_systems 30 ! i)"]) simp
  then have r1: "map eq_num (instructions (page_fixed L (sample_systems 30) 3 5 1)) = [16..<31]"
    by (simp add: map_Suc_upt)
  from t [THEN conjunct2, THEN conjunct1, rule_format, OF h2]
  have "map eq_num (instructions (pages_hannah LH (sample_systems 30) 3 5 2 ! 0)) =
      map Suc [0..<15]"
    by (intro map_eq_num [where f = "\<lambda>i. fst (sample_systems 30 ! i)"]) simp
  then have r2: "map eq_num (instructions (pages_hannah LH (sample_systems 30) 3 5 2 ! 0)) =
      [1..<16]"
    by (simp add: map_Suc_upt)
  from t [THEN conjunct2, THEN conjunct2, rule_format, OF h3]
  have r3: "drawn_numbers (document_fixed 3 5 2 (sample_systems 30)) = Inr [[1..<16], [16..<31]]" .
  from h1 h2 h3 r1 r2 r3 show ?thesis by blast
qed

lemma map_fst_proj:
  "map eq_num ins = map fst (map (\<lambda>d. (eq_num d, equations d)) ins)"
  by (simp add: comp_def)

lemma default_page_numbers:
  assumes L: "calculate_layout_fixed 3 (15 * mm) (10 * mm) = Inr L"
  shows "map eq_num (instructions (page_fixed L (sample_systems 30) 3 10 0)) =
      [1, 2, 3, 4, 5, 6, 7, 8, 9, 11, 12, 13, 14, 15, 16, 17, 18, 19,
       21, 22, 23, 24, 25, 26, 27, 28, 29]"
proof -
  note geo = calculate_layout_fixed_Inr(2-4) [OF L]
  show ?thesis
    unfolding map_fst_proj page_fixed_letter [OF geo]
    by (simp add: length_slice comp_def upt_rec)
qed

text \<open>
  C3 fails as stated: called with its default arguments (3 columns, 10 systems per
  column, 1 page), \<open>create_pdf\<close> of \<open>generate_liner_equation_system.py\<close> does not draw the
  whole slice \<open>[0, 30)\<close>: each column stops after its ninth system, so the systems 10, 20
  and 30 are not drawn.
\<close>

theorem fixed_count_pages_counterexample:
  "drawn_numbers (document_fixed 3 10 1 (sample_systems 30)) =
     Inr [[1, 2, 3, 4, 5, 6, 7, 8, 9, 11, 12, 13, 14, 15, 16, 17, 18, 19,
           21, 22, 23, 24, 25, 26, 27, 28, 29]]"
proof -
  obtain L where L: "calculate_layout_fixed 3 (15 * mm) (10 * mm) = Inr L"
    using calculate_layout_fixed_ex [of 3 "15 * mm" "10 * mm"] by auto
  from default_page_numbers [OF L] show ?thesis
    by (simp add: drawn_numbers_def document_fixed_def L)
qed

subsection \<open>The answer key\<close>

lemma str_nat_two_digits:
  "10 \<le> n \<Longrightarrow> n < 100 \<Longrightarrow> str_nat n = [digit_char (n div 10), digit_char (n mod 10)]"
  by (subst str_nat.simps) (simp add: str_nat_small)

lemma footer_Cons:
  "footer (s # ss) =
     footer_entry (0, s) @
     (if ss = [] then [] else ''  '' @ join ''  '' (map footer_entry (enumerate 1 ss)))"
  by (cases ss) (simp_all add: footer_def)

lemma startswith_append: "startswith (p @ r) p"
  by (simp add: startswith_def)

lemma footer_starts: "startswith (footer (s # ss)) (footer_entry (0, s))"
  unfolding footer_Cons by (rule startswith_append)

lemma sample_solutions:
  "b \<le> n \<Longrightarrow> map (\<lambda>i. snd (sample_systems n ! i)) [a..<b] = map (\<lambda>i. (int i + 1, - int i)) [a..<b]"
  by (rule map_cong [OF refl]) (simp add: sample_systems_nth)

text \<open>
  C2. In the code the entry of the answer key carries the position of the solution in
  the page's own list (\<open>i + 1\<close> of \<open>enumerate(solutions)\<close>), not the number drawn beside
  the system. With 3 columns, 5 systems per column and 2 pages, page 2 draws the
  systems numbered 16 to 30, and its answer key starts with \<open>1.(16,-15)\<close>: the answer of
  system 16 under the number 1. With 1 column and 2 systems per column, page 2 draws the
  systems 3 and 4 and prints the key \<open>1.(3,-2)  2.(4,-3)\<close>.
\<close>

theorem answer_key_numbering:
  "drawn_numbers (document_fixed 3 5 2 (sample_systems 30)) = Inr [[1..<16], [16..<31]] \<and>
   footers (document_fixed 3 5 2 (sample_systems 30)) =
     Inr [footer (map (\<lambda>i. (int i + 1, - int i)) [0..<15]),
          footer (map (\<lambda>i. (int i + 1, - int i)) [15..<30])] \<and>
   startswith (footer (map (\<lambda>i. (int i + 1, - int i)) [15..<30])) ''1.(16,-15)'' \<and>
   drawn_numbers (document_fixed 1 2 2 (sample_systems 4)) = Inr [[1, 2], [3, 4]] \<and>
   footers (document_fixed 1 2 2 (sample_systems 4)) = Inr [''1.(1,0)  2.(2,-1)'', ''1.(3,-2)  2.(4,-3)'']"
proof -
  obtain L where L: "calculate_layout_fixed 3 (15 * mm) (10 * mm) = Inr L"
    using calculate_layout_fixed_ex [of 3 "15 * mm" "10 * mm"] by auto
  obtain L1 where L1: "calculate_layout_fixed 1 (15 * mm) (10 * mm) = Inr L1"
    using calculate_layout_fixed_ex [of 1 "15 * mm" "10 * mm"] by auto
  have a: "drawn_numbers (document_fixed 3 5 2 (sample_systems 30)) = Inr [[1..<16], [16..<31]]"
    using drawn_numbers_document_fixed [OF L, of 5 2 "sample_systems 30"]
    by (simp add: upt_two)
  have b: "footers (document_fixed 3 5 2 (sample_systems 30)) =
     Inr [footer (map (\<lambda>i. (int i + 1, - int i)) [0..<15]),
          footer (map (\<lambda>i. (int i + 1, - int i)) [15..<30])]"
  proof -
    have s1: "map (\<lambda>i. snd (sample_systems 30 ! i)) [0..<15] =
        map (\<lambda>i. (int i + 1, - int i)) [0..<15]"
      by (rule sample_solutions) simp
    have s2: "map (\<lambda>i. snd (sample_systems 30 ! i)) [15..<30] =
        map (\<lambda>i. (int i + 1, - int i)) [15..<30]"
      by (rule sample_solutions) simp
    from footers_document_fixed [OF L, of 5 2 "sample_systems 30"] show ?thesis
      by (simp add: upt_two s1 s2 del: upt_rec_numeral)
  qed
  have "[15..<30] = 15 # [16..<30]"
    by (simp add: upt_conv_Cons)
  then have "startswith (footer (map (\<lambda>i. (int i + 1, - int i)) [15..<30]))
      (footer_entry (0, (int 15 + 1, - int 15)))"
    by (simp only: list.map footer_starts)
  moreover have "footer_entry (0, (int 15 + 1, - int 15)) = ''1.(16,-15)''"
    by (simp add: footer_entry_def str_int_def str_nat_small str_nat_two_digits digit_char_def)
  ultimately have c: "startswith (footer (map (\<lambda>i. (int i + 1, - int i)) [15..<30])) ''1.(16,-15)''"
    by simp
  have d: "drawn_numbers (document_fixed 1 2 2 (sample_systems 4)) = Inr [[1, 2], [3, 4]]"
    using drawn_numbers_document_fixed [OF L1, of 2 2 "sample_systems 4"]
    by (simp add: upt_rec)
  have e: "footers (document_fixed 1 2 2 (sample_systems 4)) =
      Inr [''1.(1,0)  2.(2,-1)'', ''1.(3,-2)  2.(4,-3)'']"
    using footers_document_fixed [OF L1, of 2 2 "sample_systems 4"]
    by (simp add: upt_rec sample_systems_nth footer_def footer_entry_def str_int_def
        str_nat_small digit_char_def enumerate_eq_zip)
  from a b c d e show ?thesis by blast
qed

text \<open>
  C10. On every page of every layout variant the footer is the answer key of exactly the
  systems drawn, in the order drawn: the \<open>i\<close>-th entry is made from the solution of the
  item whose equations the \<open>i\<close>-th instruction shows, so there are as many entries as
  instructions. The item is found from the number drawn: \<open>eqns[eq_num - 1]\<close> in
  \<open>print_page\<close>, \<open>all_equations[eq_num - 1]\<close> in the two files under \<open>src/math\<close>. Both
  exits of a column's loop keep this: the exit at the item count comes before the solution
  is appended and the system drawn, the exit at the bottom boundary after both.
\<close>

theorem footer_lists_drawn_systems:
  "(footer_text (print_page ncols epc LH eqns page_num) =
      footer (map (\<lambda>d. snd (eqns ! (eq_num d - 1)))
                (instructions (print_page ncols epc LH eqns page_num))) \<and>
    (\<forall>d\<in>set (instructions (print_page ncols epc LH eqns page_num)).
       1 \<le> eq_num d \<and> eq_num d - 1 < length eqns \<and>
       equations d = fst (eqns ! (eq_num d - 1)))) \<and>
   (footer_text (page_fixed L all_equations ncols epc p) =
      footer (map (\<lambda>d. snd (all_equations ! (eq_num d - 1)))
                (instructions (page_fixed L all_equations ncols epc p))) \<and>
    (\<forall>d\<in>set (instructions (page_fixed L all_equations ncols epc p)).
       1 \<le> eq_num d \<and> eq_num d - 1 < length all_equations \<and>
       equations d = fst (all_equations ! (eq_num d - 1)))) \<and>
   (\<exists>pg. page_dynamic LD all_equations ncols epc p = Inr pg \<and>
      footer_text pg =
        footer (map (\<lambda>d. snd (all_equations ! (eq_num d - 1))) (instructions pg)) \<and>
      (\<forall>d\<in>set (instructions pg).
         1 \<le> eq_num d \<and> eq_num d - 1 < length all_equations \<and>
         equations d = fst (all_equations ! (eq_num d - 1))))"
proof (intro conjI)
  from print_page_linked [of eqns ncols epc LH page_num] obtain sols where
    "linked eqns 1 (instructions (print_page ncols epc LH eqns page_num), sols)"
    "footer_text (print_page ncols epc LH eqns page_num) = footer sols"
    by blast
  then show "footer_text (print_page ncols epc LH eqns page_num) =
      footer (map (\<lambda>d. snd (eqns ! (eq_num d - 1)))
                (instructions (print_page ncols epc LH eqns page_num)))"
    and "\<forall>d\<in>set (instructions (print_page ncols epc LH eqns page_num)).
       1 \<le> eq_num d \<and> eq_num d - 1 < length eqns \<and>
       equations d = fst (eqns ! (eq_num d - 1))"
    by (simp_all add: linked_def)
next
  from page_fixed_linked [of all_equations L ncols epc p] obtain sols where
    "linked all_equations 1 (instructions (page_fixed L all_equations ncols epc p), sols)"
    "footer_text (page_fixed L all_equations ncols epc p) = footer sols"
    by blast
  then show "footer_text (page_fixed L all_equations ncols epc p) =
      footer (map (\<lambda>d. snd (all_equations ! (eq_num d - 1)))
                (instructions (page_fixed L all_equations ncols epc p)))"
    and "\<forall>d\<in>set (instructions (page_fixed L all_equations ncols epc p)).
       1 \<le> eq_num d \<and> eq_num d - 1 < length all_equations \<and>
       equations d = fst (all_equations ! (eq_num d - 1))"
    by (simp_all add: linked_def)
next
  from page_dynamic_linked [of LD all_equations ncols epc p] obtain pg sols where
    "page_dynamic LD all_equations ncols epc p = Inr pg"
    "linked all_equations 1 (instructions pg, sols)" "footer_text pg = footer sols"
    by blast
  then show "\<exists>pg. page_dynamic LD all_equations ncols epc p = Inr pg \<and>
      footer_text pg =
        footer (map (\<lambda>d. snd (all_equations ! (eq_num d - 1))) (instructions pg)) \<and>
      (\<forall>d\<in>set (instructions pg).
         1 \<le> eq_num d \<and> eq_num d - 1 < length all_equations \<and>
         equations d = fst (all_equations ! (eq_num d - 1)))"
    by (auto simp: linked_def)
qed


theorem footer_lists_drawn_systems_witness:
  "\<exists>L. calculate_layout_fixed 3 (15 * mm) (10 * mm) = Inr L \<and>
        length (instructions (page_fixed L (sample_systems 30) 3 10 0)) = 27 \<and>
        footer_text (page_fixed L (sample_systems 30) 3 10 0) =
          footer (map (\<lambda>n. snd (sample_systems 30 ! (n - 1)))
            [1, 2, 3, 4, 5, 6, 7, 8, 9, 11, 12, 13, 14, 15, 16, 17, 18, 19,
             21, 22, 23, 24, 25, 26, 27, 28, 29]) \<and>
        (\<forall>d\<in>set (instructions (page_fixed L (sample_systems 30) 3 10 0)).
           equations d = fst (sample_systems 30 ! (eq_num d - 1)))"
proof -
  obtain L where L: "calculate_layout_fixed 3 (15 * mm) (10 * mm) = Inr L"
    using calculate_layout_fixed_ex [of 3 "15 * mm" "10 * mm"] by auto
  let ?pg = "page_fixed L (sample_systems 30) 3 10 0"
  note n = default_page_numbers [OF L]
  note t = footer_lists_drawn_systems [where ncols = 3 and epc = 10 and L = L and
      all_equations = "sample_systems 30" and p = 0, THEN conjunct2, THEN conjunct1]
  have "length (instructions ?pg) = length (map eq_num (instructions ?pg))" by simp
  also have "\<dots> = 27" unfolding n by simp
  finally have len: "length (instructions ?pg) = 27" .
  have "map (\<lambda>d. snd (sample_systems 30 ! (eq_num d - 1))) (instructions ?pg) =
      map (\<lambda>n. snd (sample_systems 30 ! (n - 1))) (map eq_num (instructions ?pg))"
    by (simp add: comp_def)
  with t [THEN conjunct1] have "footer_text ?pg =
      footer (map (\<lambda>n. snd (sample_systems 30 ! (n - 1))) (map eq_num (instructions ?pg)))"
    by (simp only:)
  then have f: "footer_text ?pg =
      footer (map (\<lambda>n. snd (sample_systems 30 ! (n - 1)))
        [1, 2, 3, 4, 5, 6, 7, 8, 9, 11, 12, 13, 14, 15, 16, 17, 18, 19,
         21, 22, 23, 24, 25, 26, 27, 28, 29])"
    unfolding n .
  from t [THEN conjunct2] have
    "\<forall>d\<in>set (instructions ?pg). equations d = fst (sample_systems 30 ! (eq_num d - 1))"
    by blast
  with L len f show ?thesis by blast
qed

subsection \<open>The derived count is not read\<close>

lemma x_positions_update [simp]:
  "x_positions (L\<lparr>equations_per_column := v\<rparr>) ncols = x_positions L ncols"
  by (simp add: x_positions_def)

lemma item_loop_dynamic_update [simp]:
  "item_loop_dynamic (L\<lparr>equations_per_column := v\<rparr>) cd start cs x sp idxs y st =
   item_loop_dynamic L cd start cs x sp idxs y st"
proof (induction idxs arbitrary: y st)
  case Nil
  then show ?case by simp
next
  case (Cons idx idxs)
  obtain canvas sols where st: "st = (canvas, sols)" by (cases st)
  from Cons show ?case
    by (simp add: st Let_def split: prod.splits)
qed

lemma column_dynamic_update [simp]:
  "column_dynamic (L\<lparr>equations_per_column := v\<rparr>) pd start ncols epc col st =
   column_dynamic L pd start ncols epc col st"
  by (simp add: column_dynamic_def Let_def cong: sum.case_cong)

lemma columns_dynamic_update [simp]:
  "columns_dynamic (L\<lparr>equations_per_column := v\<rparr>) pd start ncols epc cols st =
   columns_dynamic L pd start ncols epc cols st"
  by (induction cols arbitrary: st) (simp_all cong: sum.case_cong)

lemma page_dynamic_update:
  "page_dynamic (L\<lparr>equations_per_column := v\<rparr>) all_equations ncols epc p =
   page_dynamic L all_equations ncols epc p"
  by (simp add: page_dynamic_def Let_def)

lemma pages_dynamic_exact:
  assumes geo: "base_y L = 792 - 25 * mm" "line_height L = 7 * mm" "footer_y L = 15 * mm"
    and epc: "epc \<le> 45"
  shows "\<forall>p\<in>set ps. (p + 1) * (ncols * epc) \<le> length all_equations \<Longrightarrow>
    \<exists>pgs. pages_dynamic L all_equations ncols epc ps = Inr pgs \<and>
      map (\<lambda>pg. map eq_num (instructions pg)) pgs =
        map (\<lambda>p. [Suc (p * (ncols * epc))..<Suc ((p + 1) * (ncols * epc))]) ps"
proof (induction ps)
  case Nil
  then show ?case by simp
next
  case (Cons p ps)
  from Cons.prems have d: "(p + 1) * (ncols * epc) \<le> length all_equations" by simp
  from page_dynamic_exact [OF geo epc d] obtain pg where
    pg: "page_dynamic L all_equations ncols epc p = Inr pg"
    "map (\<lambda>d. (eq_num d, equations d)) (instructions pg) =
       map (\<lambda>i. (i + 1, fst (all_equations ! i))) [p * (ncols * epc)..<(p + 1) * (ncols * epc)]"
    by blast
  from map_eq_num [OF pg(2)] have n: "map eq_num (instructions pg) =
      [Suc (p * (ncols * epc))..<Suc ((p + 1) * (ncols * epc))]"
    by (simp add: map_Suc_upt)
  from Cons.prems have "\<forall>p\<in>set ps. (p + 1) * (ncols * epc) \<le> length all_equations" by simp
  from Cons.IH [OF this] obtain pgs where
    "pages_dynamic L all_equations ncols epc ps = Inr pgs"
    "map (\<lambda>pg. map eq_num (instructions pg)) pgs =
        map (\<lambda>p. [Suc (p * (ncols * epc))..<Suc ((p + 1) * (ncols * epc))]) ps"
    by blast
  with pg(1) n show ?case by simp
qed

lemma drawn_numbers_document_dynamic:
  assumes ncols: "0 < ncols" and epc: "epc \<le> 45"
    and data: "npages * (ncols * epc) \<le> length all_equations"
  shows "drawn_numbers (document_dynamic ncols epc npages all_equations) =
     Inr (map (\<lambda>p. [Suc (p * (ncols * epc))..<Suc ((p + 1) * (ncols * epc))]) [0..<npages])"
proof -
  obtain L where L: "calculate_layout_dynamic ncols = Inr L"
    using calculate_layout_dynamic_ex [OF ncols] by auto
  note geo = calculate_layout_dynamic_Inr(2-4) [OF L]
  have "\<forall>p\<in>set [0..<npages]. (p + 1) * (ncols * epc) \<le> length all_equations"
  proof
    fix p assume "p \<in> set [0..<npages]"
    then have "Suc p \<le> npages" by simp
    then have "Suc p * (ncols * epc) \<le> npages * (ncols * epc)" by (rule mult_le_mono1)
    with data show "(p + 1) * (ncols * epc) \<le> length all_equations" by simp
  qed
  from pages_dynamic_exact [OF geo epc this] obtain pgs where
    "pages_dynamic L all_equations ncols epc [0..<npages] = Inr pgs"
    "map (\<lambda>pg. map eq_num (instructions pg)) pgs =
        map (\<lambda>p. [Suc (p * (ncols * epc))..<Suc ((p + 1) * (ncols * epc))]) [0..<npages]"
    by blast
  then show ?thesis
    by (simp add: drawn_numbers_def document_dynamic_def L)
qed

text \<open>One column of 46 systems on the letter page: the 46th is not placed.\<close>

lemma overflow_page:
  assumes L: "calculate_layout_dynamic 1 = Inr L"
  shows "\<exists>canvas. page_dynamic L (sample_systems 46) 1 46 0 =
      Inr \<lparr>instructions = canvas,
           footer_text = footer (map (\<lambda>i. (int i + 1, - int i)) [0..<45])\<rparr> \<and>
      map eq_num canvas = [1..<46]"
proof -
  note geo = calculate_layout_dynamic_Inr(2-4) [OF L]
  let ?pd = "slice (sample_systems 46) (0 * 1 * 46) (0 * 1 * 46 + 1 * 46)"
  have pd: "?pd = sample_systems 46"
    by (simp add: slice_def)
  have cd: "slice (sample_systems 46) (0 * 46) ((0 + 1) * 46) = sample_systems 46"
    by (simp add: slice_def)
  have K: "length (slice (sample_systems 46) (0 * 46) ((0 + 1) * 46)) \<le> 45 \<and>
      45 = length (slice (sample_systems 46) (0 * 46) ((0 + 1) * 46)) \<or>
      length (slice (sample_systems 46) (0 * 46) ((0 + 1) * 46)) = 46 \<and> (45::nat) = 45"
    unfolding cd by simp
  from column_dynamic_letter [OF geo _ K, of 1 0 "[]" "[]"] obtain canvas sols where
    col: "column_dynamic L (sample_systems 46) 0 1 46 0 ([], []) = Inr (canvas, sols)"
    and pr: "map (\<lambda>d. (eq_num d, equations d)) canvas =
       map (\<lambda>k. (0 + (0 * 46 + k) + 1, fst (sample_systems 46 ! k))) [0..<45]"
    and so: "sols = map (\<lambda>k. snd (sample_systems 46 ! k)) [0..<45]"
    unfolding cd by auto
  have "map eq_num canvas = map Suc [0..<45]"
    using pr by (intro map_eq_num [where f = "\<lambda>i. fst (sample_systems 46 ! i)"]) simp
  then have n: "map eq_num canvas = [1..<46]"
    by (simp add: map_Suc_upt)
  have s: "sols = map (\<lambda>i. (int i + 1, - int i)) [0..<45]"
    unfolding so by (rule sample_solutions) simp
  have "[0..<1] = [0]" by simp
  then have "page_dynamic L (sample_systems 46) 1 46 0 =
      Inr \<lparr>instructions = canvas, footer_text = footer sols\<rparr>"
    unfolding page_dynamic_def Let_def pd by (simp add: col [unfolded One_nat_def])
  with n s show ?thesis by simp
qed

subsection \<open>Comparisons that are clear of the boundary line\<close>

text \<open>
  The boundary check of the dynamic-fit layout compares a coordinate that the source
  accumulates in double precision, one subtraction of \<open>2 * line_height\<close> and one of the
  spacing per item; here the same coordinate is an exact rational. The two comparisons
  can differ only when the coordinate comes within rounding of the line
  \<open>footer_y + 15mm\<close>. The statements about where a column stops therefore assume that the
  coordinate after each of the \<open>n\<close> items of the column stays at least \<open>n / 10^9\<close> points
  away from the line, which is far more than \<open>n\<close> roundings of numbers below 1000 can
  amount to; and they conclude that every comparison is decided by that margin. On the
  letter page the coordinate after \<open>j\<close> of \<open>n\<close> items is
  \<open>72 * (1122 * n - 1147 * j) / (127 * n)\<close> above the line, so that for a column of at most
  20000 items the assumption fails only if \<open>1122 * n = 1147 * j\<close> for some \<open>j\<close>, which needs
  \<open>n\<close> to be a multiple of 1147.
\<close>

lemma column_dynamic_clear:
  fixes tol :: rat
  assumes col: "col < ncols"
    and n: "n = length (slice pd (col * epc) ((col + 1) * epc))"
    and pos: "0 < n"
    and A: "A = 2 * line_height L +
              (base_y L - footer_y L - 10 * mm - of_nat n * (2 * line_height L)) / of_nat n"
    and clear: "\<forall>j. 0 < j \<and> j < n \<longrightarrow>
              tol \<le> \<bar>base_y L - of_nat j * A - (footer_y L + 15 * mm)\<bar>"
  shows "\<exists>m. 0 < m \<and> m \<le> n \<and>
     column_dynamic L pd start ncols epc col (canvas, sols) =
       Inr (canvas @
              map (\<lambda>k. \<lparr>eq_num = start + (col * epc + k) + 1,
                         origin_x = x_positions L ncols ! col,
                         origin_y = base_y L - of_nat k * A,
                         equations = fst (slice pd (col * epc) ((col + 1) * epc) ! k)\<rparr>) [0..<m],
            sols @ map (\<lambda>k. snd (slice pd (col * epc) ((col + 1) * epc) ! k)) [0..<m]) \<and>
     (\<forall>j. 0 < j \<and> j < m \<longrightarrow> footer_y L + 15 * mm + tol \<le> base_y L - of_nat j * A) \<and>
     (m < n \<longrightarrow> base_y L - of_nat m * A \<le> footer_y L + 15 * mm - tol)"
proof -
  have n': "0 < length (slice pd (col * epc) ((col + 1) * epc))"
    using n pos by simp
  from column_dynamic_placed [OF col n', of L start canvas sols, folded n, folded A]
  obtain m where m: "0 < m" "m \<le> n"
    "column_dynamic L pd start ncols epc col (canvas, sols) =
       Inr (canvas @
              map (\<lambda>k. \<lparr>eq_num = start + (col * epc + k) + 1,
                         origin_x = x_positions L ncols ! col,
                         origin_y = base_y L - of_nat k * A,
                         equations = fst (slice pd (col * epc) ((col + 1) * epc) ! k)\<rparr>) [0..<m],
            sols @ map (\<lambda>k. snd (slice pd (col * epc) ((col + 1) * epc) ! k)) [0..<m])"
    "\<forall>j. 0 < j \<and> j < m \<longrightarrow> \<not> base_y L - of_nat j * A < footer_y L + 15 * mm"
    "m < n \<longrightarrow> base_y L - of_nat m * A < footer_y L + 15 * mm"
    by blast
  have a: "\<forall>j. 0 < j \<and> j < m \<longrightarrow> footer_y L + 15 * mm + tol \<le> base_y L - of_nat j * A"
  proof (intro allI impI)
    fix j assume j: "0 < j \<and> j < m"
    with m(2) have "0 < j \<and> j < n" by simp
    with clear have "tol \<le> \<bar>base_y L - of_nat j * A - (footer_y L + 15 * mm)\<bar>" by blast
    moreover from m(4) j have "\<not> base_y L - of_nat j * A < footer_y L + 15 * mm" by blast
    ultimately show "footer_y L + 15 * mm + tol \<le> base_y L - of_nat j * A" by linarith
  qed
  have b: "m < n \<longrightarrow> base_y L - of_nat m * A \<le> footer_y L + 15 * mm - tol"
  proof
    assume lt: "m < n"
    with m(1) clear have "tol \<le> \<bar>base_y L - of_nat m * A - (footer_y L + 15 * mm)\<bar>" by blast
    moreover from m(5) lt have "base_y L - of_nat m * A < footer_y L + 15 * mm" by blast
    ultimately show "base_y L - of_nat m * A \<le> footer_y L + 15 * mm - tol" by linarith
  qed
  show ?thesis
    by (rule exI [where x = m]) (intro conjI m(1) m(2) m(3) a b)
qed

lemma dynamic_distance:
  fixes n :: nat
  assumes "base_y L = 792 - 25 * mm" "line_height L = 7 * mm" "footer_y L = 15 * mm" "0 < n"
  shows "base_y L - of_nat j *
            (2 * line_height L +
             (base_y L - footer_y L - 10 * mm - of_nat n * (2 * line_height L)) / of_nat n)
          - (footer_y L + 15 * mm) =
         72 * (1122 * of_nat n - 1147 * of_nat j) / (127 * of_nat n)"
proof -
  have n: "(0::rat) < of_nat n" using assms(4) by simp
  have "2 * line_height L +
          (base_y L - footer_y L - 10 * mm - of_nat n * (2 * line_height L)) / of_nat n =
        (82584 / 127) / of_nat n"
    using n by (simp add: assms mm_val field_simps)
  moreover have "792 - 25 * mm - of_nat j * ((82584 / 127) / of_nat n) - (15 * mm + 15 * mm) =
      72 * (1122 * of_nat n - 1147 * of_nat j) / (127 * of_nat n)"
    using n by (simp add: mm_val field_simps)
  ultimately show ?thesis by (simp add: assms(1,3))
qed

lemma dynamic_clear_letter:
  fixes n j :: nat
  assumes geo: "base_y L = 792 - 25 * mm" "line_height L = 7 * mm" "footer_y L = 15 * mm"
    and n: "0 < n" "n \<le> 20000"
    and ne: "1122 * n \<noteq> 1147 * j"
  shows "of_nat n / 1000000000 \<le>
     \<bar>base_y L - of_nat j *
        (2 * line_height L +
         (base_y L - footer_y L - 10 * mm - of_nat n * (2 * line_height L)) / of_nat n)
      - (footer_y L + 15 * mm)\<bar>"
proof -
  have np: "(0::rat) < of_nat n" using n(1) by simp
  have "int (1122 * n) \<noteq> int (1147 * j)" using ne by (simp only: of_nat_eq_iff) simp
  then have "1 \<le> \<bar>1122 * int n - 1147 * int j\<bar>" by simp
  then have "(1::rat) \<le> of_int \<bar>1122 * int n - 1147 * int j\<bar>"
    by (simp only: of_int_1_le_iff)
  then have d: "(1::rat) \<le> \<bar>1122 * of_nat n - 1147 * of_nat j\<bar>"
    by simp
  have "(of_nat n :: rat) \<le> 20000" using n(2) by simp
  then have "(of_nat n :: rat) * of_nat n \<le> 20000 * 20000"
    by (intro mult_mono) simp_all
  then have "127 * (of_nat n * of_nat n) \<le> (72 * 1000000000 :: rat)" by simp
  then have "of_nat n / 1000000000 \<le> (72 :: rat) / (127 * of_nat n)"
    using np by (simp add: field_simps)
  also have "\<dots> \<le> 72 * \<bar>1122 * of_nat n - 1147 * of_nat j\<bar> / (127 * of_nat n)"
    using np d by (simp add: field_simps)
  also have "\<dots> = \<bar>72 * (1122 * of_nat n - 1147 * of_nat j) / (127 * of_nat n)\<bar>"
    by (simp only: abs_divide abs_mult abs_numeral abs_of_nat)
  finally show ?thesis
    unfolding dynamic_distance [OF geo n(1)] .
qed

subsection \<open>Overflow of a column\<close>

text \<open>
  C4, as amended. In the dynamic-fit layout on the letter page, take a populated column of
  \<open>n\<close> items in which no y-coordinate comes within \<open>n / 10^9\<close> points of the line
  \<open>footer_y + 15mm\<close>. The column places its items from the top, the \<open>k\<close>-th (from 0) at
  \<open>base_y - k * A\<close>, where \<open>A\<close> is \<open>itemHeight + spacing\<close>. The items placed are the first
  \<open>m\<close> of the column, \<open>m \<ge> 1\<close>: every placed item after the first has its y-coordinate
  above the line, and when items are left over the first of them would lie below the
  line; it and all later items are excluded, all earlier ones remain placed, with their
  solutions collected for the footer. The code keeps no count of the excluded items: a
  column yields the placed instructions and their solutions, nothing else.
\<close>

theorem dynamic_column_overflow:
  assumes "calculate_layout_dynamic ncols = Inr L"
    and "col < ncols"
    and "n = length (slice pd (col * epc) ((col + 1) * epc))"
    and "0 < n"
    and "A = 2 * line_height L +
           (base_y L - footer_y L - 10 * mm - of_nat n * (2 * line_height L)) / of_nat n"
    and "\<forall>j. 0 < j \<and> j < n \<longrightarrow>
           of_nat n / 1000000000 \<le> \<bar>base_y L - of_nat j * A - (footer_y L + 15 * mm)\<bar>"
  shows "\<exists>m. 0 < m \<and> m \<le> n \<and>
     column_dynamic L pd start ncols epc col (canvas, sols) =
       Inr (canvas @
              map (\<lambda>k. \<lparr>eq_num = start + (col * epc + k) + 1,
                         origin_x = x_positions L ncols ! col,
                         origin_y = base_y L - of_nat k * A,
                         equations = fst (slice pd (col * epc) ((col + 1) * epc) ! k)\<rparr>) [0..<m],
            sols @ map (\<lambda>k. snd (slice pd (col * epc) ((col + 1) * epc) ! k)) [0..<m]) \<and>
     (\<forall>j. 0 < j \<and> j < m \<longrightarrow>
        footer_y L + 15 * mm + of_nat n / 1000000000 \<le> base_y L - of_nat j * A) \<and>
     (m < n \<longrightarrow> base_y L - of_nat m * A \<le> footer_y L + 15 * mm - of_nat n / 1000000000)"
  using column_dynamic_clear [OF assms(2-6)] .

theorem dynamic_column_overflow_witness:
  "\<exists>L A. calculate_layout_dynamic 1 = Inr L \<and> (0::nat) < 1 \<and>
     46 = length (slice (sample_systems 46) (0 * 46) ((0 + 1) * 46)) \<and> (0::nat) < 46 \<and>
     A = 2 * line_height L +
           (base_y L - footer_y L - 10 * mm - of_nat 46 * (2 * line_height L)) / of_nat 46 \<and>
     (\<forall>j. 0 < j \<and> j < 46 \<longrightarrow>
        of_nat 46 / 1000000000 \<le> \<bar>base_y L - of_nat j * A - (footer_y L + 15 * mm)\<bar>) \<and>
     column_dynamic L (sample_systems 46) 0 1 46 0 ([], []) =
       Inr ([] @
              map (\<lambda>k. \<lparr>eq_num = 0 + (0 * 46 + k) + 1,
                         origin_x = x_positions L 1 ! 0,
                         origin_y = base_y L - of_nat k * A,
                         equations =
                           fst (slice (sample_systems 46) (0 * 46) ((0 + 1) * 46) ! k)\<rparr>)
                [0..<45],
            [] @ map (\<lambda>k. snd (slice (sample_systems 46) (0 * 46) ((0 + 1) * 46) ! k))
                   [0..<45])"
proof -
  obtain L where L: "calculate_layout_dynamic 1 = Inr L"
    using calculate_layout_dynamic_ex [of 1] by auto
  note geo = calculate_layout_dynamic_Inr(2-4) [OF L]
  define A where "A = 2 * line_height L +
      (base_y L - footer_y L - 10 * mm - of_nat (46::nat) * (2 * line_height L)) / of_nat (46::nat)"
  have h1: "(0::nat) < 1" by simp
  have h2: "46 = length (slice (sample_systems 46) (0 * 46) ((0 + 1) * 46))"
    by (simp add: length_slice)
  have h3: "(0::nat) < 46" by simp
  have h4: "\<forall>j. 0 < j \<and> j < 46 \<longrightarrow>
      of_nat (46::nat) / 1000000000 \<le> \<bar>base_y L - of_nat j * A - (footer_y L + 15 * mm)\<bar>"
  proof (intro allI impI)
    fix j :: nat assume "0 < j \<and> j < 46"
    then consider "j \<le> 44" | "j = 45" by linarith
    then have ne: "1122 * 46 \<noteq> 1147 * j"
      by cases simp_all
    have le: "(46::nat) \<le> 20000" by simp
    from dynamic_clear_letter [OF geo h3 le ne]
    show "of_nat (46::nat) / 1000000000 \<le> \<bar>base_y L - of_nat j * A - (footer_y L + 15 * mm)\<bar>"
      unfolding A_def .
  qed
  from dynamic_column_overflow [OF L h1 h2 h3 A_def h4, of 0 "[]" "[]"]
  obtain m where m: "0 < m" "m \<le> 46"
    "column_dynamic L (sample_systems 46) 0 1 46 0 ([], []) =
       Inr ([] @
              map (\<lambda>k. \<lparr>eq_num = 0 + (0 * 46 + k) + 1,
                         origin_x = x_positions L 1 ! 0,
                         origin_y = base_y L - of_nat k * A,
                         equations =
                           fst (slice (sample_systems 46) (0 * 46) ((0 + 1) * 46) ! k)\<rparr>)
                [0..<m],
            [] @ map (\<lambda>k. snd (slice (sample_systems 46) (0 * 46) ((0 + 1) * 46) ! k))
                   [0..<m])"
    "\<forall>j. 0 < j \<and> j < m \<longrightarrow>
        footer_y L + 15 * mm + of_nat (46::nat) / 1000000000 \<le> base_y L - of_nat j * A"
    "m < 46 \<longrightarrow>
       base_y L - of_nat m * A \<le> footer_y L + 15 * mm - of_nat (46::nat) / 1000000000"
    by blast
  have below: "base_y L - of_nat j * A < footer_y L + 15 * mm \<longleftrightarrow>
      (80784 :: rat) * of_nat (46::nat) < 82584 * of_nat j" for j :: nat
    unfolding A_def by (rule dynamic_advance [OF geo h3])
  have "\<not> m < 45"
  proof
    assume lt: "m < 45"
    then have "m < 46" by simp
    with m(5) have "base_y L - of_nat m * A \<le>
        footer_y L + 15 * mm - of_nat (46::nat) / 1000000000"
      by blast
    moreover have "(0::rat) < of_nat (46::nat) / 1000000000" by simp
    ultimately have "base_y L - of_nat m * A < footer_y L + 15 * mm" by linarith
    then have "(80784 :: rat) * of_nat (46::nat) < 82584 * of_nat m" by (simp only: below)
    moreover from lt have "m \<le> 44" by simp
    ultimately show False using dynamic_overflow(1) [of m] by blast
  qed
  moreover have "m \<noteq> 46"
  proof
    assume "m = 46"
    then have "0 < (45::nat) \<and> 45 < m" by simp
    with m(4) have "footer_y L + 15 * mm + of_nat (46::nat) / 1000000000 \<le>
        base_y L - of_nat (45::nat) * A"
      by blast
    moreover have "(0::rat) < of_nat (46::nat) / 1000000000" by simp
    ultimately have "\<not> base_y L - of_nat (45::nat) * A < footer_y L + 15 * mm" by linarith
    moreover have "base_y L - of_nat (45::nat) * A < footer_y L + 15 * mm"
      using dynamic_overflow(2) by (simp only: below)
    ultimately show False by blast
  qed
  ultimately have "m = 45" using m(2) by simp
  with m(3) have res: "column_dynamic L (sample_systems 46) 0 1 46 0 ([], []) =
       Inr ([] @
              map (\<lambda>k. \<lparr>eq_num = 0 + (0 * 46 + k) + 1,
                         origin_x = x_positions L 1 ! 0,
                         origin_y = base_y L - of_nat k * A,
                         equations =
                           fst (slice (sample_systems 46) (0 * 46) ((0 + 1) * 46) ! k)\<rparr>)
                [0..<45],
            [] @ map (\<lambda>k. snd (slice (sample_systems 46) (0 * 46) ((0 + 1) * 46) ! k))
                   [0..<45])"
    by (simp only:)
  have A': "A = 2 * line_height L +
           (base_y L - footer_y L - 10 * mm - of_nat 46 * (2 * line_height L)) / of_nat 46"
    by (simp only: A_def)
  show ?thesis
    by (rule exI [where x = L], rule exI [where x = A]) (intro conjI L h1 h2 h3 A' h4 res)
qed

lemma map_nth_take:
  "n \<le> length xs \<Longrightarrow> map (\<lambda>i. f (xs ! i)) [0..<n] = map f (take n xs)"
  by (simp add: list_eq_iff_nth_eq)

text \<open>
  C4 fails as stated. With one column of 46 systems (\<open>num_columns = 1\<close>,
  \<open>equations_per_column = 46\<close>, one page) the 46th system is excluded, and what the run
  produces is the page with the 45 systems drawn and the answer key of the same 45.
  \<open>create_pdf\<close> itself returns nothing: the number of excluded systems is recorded
  nowhere.
\<close>

theorem dynamic_column_overflow_counterexample:
  "length (sample_systems 46) = 46 \<and>
   drawn_numbers (document_dynamic 1 46 1 (sample_systems 46)) = Inr [[1..<46]] \<and>
   footers (document_dynamic 1 46 1 (sample_systems 46)) =
     Inr [footer (map snd (take 45 (sample_systems 46)))]"
proof -
  obtain L where L: "calculate_layout_dynamic 1 = Inr L"
    using calculate_layout_dynamic_ex [of 1] by auto
  from overflow_page [OF L] obtain canvas where
    pg: "page_dynamic L (sample_systems 46) 1 46 0 =
      Inr \<lparr>instructions = canvas,
           footer_text = footer (map (\<lambda>i. (int i + 1, - int i)) [0..<45])\<rparr>"
    and n: "map eq_num canvas = [1..<46]"
    by blast
  have "map (\<lambda>i. snd (sample_systems 46 ! i)) [0..<45] = map snd (take 45 (sample_systems 46))"
    by (rule map_nth_take) simp
  moreover have "map (\<lambda>i. snd (sample_systems 46 ! i)) [0..<45] =
      map (\<lambda>i. (int i + 1, - int i)) [0..<45]"
    by (rule sample_solutions) simp
  ultimately have s: "map (\<lambda>i. (int i + 1, - int i)) [0..<45] =
      map snd (take 45 (sample_systems 46))"
    by simp
  have "[0..<1] = [0]" by simp
  then have doc: "document_dynamic 1 46 1 (sample_systems 46) =
      Inr [\<lparr>instructions = canvas,
            footer_text = footer (map snd (take 45 (sample_systems 46)))\<rparr>]"
    unfolding s [symmetric]
    by (simp add: document_dynamic_def L [unfolded One_nat_def] pg [unfolded One_nat_def])
  show ?thesis
    unfolding doc by (simp add: drawn_numbers_def footers_def n)
qed

subsection \<open>Spacing of a column\<close>

text \<open>
  C5. The extra spacing of a column is \<open>remainingSpace / actualCount\<close> whenever
  \<open>actualCount > 0\<close> (with \<open>remainingSpace = 40\<close> and \<open>actualCount = 4\<close> exactly 10). For
  an empty column nothing is divided and nothing is emitted: the column returns the page
  state it was given, and no error. For every populated column the \<open>k\<close>-th item placed
  (from 0) sits \<open>k * (itemHeight + spacing)\<close> below the top of the column, \<open>itemHeight\<close>
  being \<open>2 * line_height\<close>: every item advances by \<open>itemHeight + spacing\<close>. Moreover, for
  a populated column of \<open>n\<close> items on the letter page in which no y-coordinate comes
  within \<open>n / 10^9\<close> points of the line \<open>footer_y + 15mm\<close>, the spacing \<open>sp\<close> that the code
  computes is \<open>remainingSpace / n\<close> and the number \<open>m\<close> of items placed is determined by
  the positions \<open>base_y - k * (itemHeight + sp)\<close>: all placed items after the first lie
  above the line, the first item left over would lie below it, and when all \<open>n\<close>
  positions are at or above the line then all \<open>n\<close> items are placed.
\<close>

theorem dynamic_spacing:
  "(0 < cnt \<longrightarrow> spacing_height_of r cnt = Inr (r / of_nat cnt)) \<and>
   spacing_height_of 40 4 = Inr 10 \<and>
   spacing_height_of r 0 = Inr 0 \<and>
   (length (slice pd (col * epc) ((col + 1) * epc)) = 0 \<longrightarrow>
      column_dynamic L pd start ncols epc col st = Inr st) \<and>
   (col < ncols \<and> 0 < length (slice pd (col * epc) ((col + 1) * epc)) \<longrightarrow>
      (\<exists>m s.
         spacing_height_of
           (base_y L - footer_y L - 10 * mm -
              of_nat (length (slice pd (col * epc) ((col + 1) * epc))) * (2 * line_height L))
           (length (slice pd (col * epc) ((col + 1) * epc))) = Inr s \<and>
         0 < m \<and>
         column_dynamic L pd start ncols epc col (canvas, sols) =
           Inr (canvas @
                  map (\<lambda>k. \<lparr>eq_num = start + (col * epc + k) + 1,
                             origin_x = x_positions L ncols ! col,
                             origin_y = base_y L - of_nat k * (2 * line_height L + s),
                             equations = fst (slice pd (col * epc) ((col + 1) * epc) ! k)\<rparr>)
                    [0..<m],
                sols @ map (\<lambda>k. snd (slice pd (col * epc) ((col + 1) * epc) ! k)) [0..<m]))) \<and>
   (calculate_layout_dynamic ncols = Inr L \<and> col < ncols \<and>
    n = length (slice pd (col * epc) ((col + 1) * epc)) \<and> 0 < n \<and>
    remaining = base_y L - footer_y L - 10 * mm - of_nat n * (2 * line_height L) \<and>
    spacing_height_of remaining n = Inr sp \<and>
    (\<forall>j. 0 < j \<and> j < n \<longrightarrow>
       of_nat n / 1000000000 \<le>
         \<bar>base_y L - of_nat j * (2 * line_height L + sp) - (footer_y L + 15 * mm)\<bar>) \<longrightarrow>
      sp = remaining / of_nat n \<and>
      (\<exists>m. 0 < m \<and> m \<le> n \<and>
         column_dynamic L pd start ncols epc col (canvas, sols) =
           Inr (canvas @
                  map (\<lambda>k. \<lparr>eq_num = start + (col * epc + k) + 1,
                             origin_x = x_positions L ncols ! col,
                             origin_y = base_y L - of_nat k * (2 * line_height L + sp),
                             equations = fst (slice pd (col * epc) ((col + 1) * epc) ! k)\<rparr>)
                    [0..<m],
                sols @ map (\<lambda>k. snd (slice pd (col * epc) ((col + 1) * epc) ! k)) [0..<m]) \<and>
         (\<forall>j. 0 < j \<and> j < m \<longrightarrow>
            footer_y L + 15 * mm + of_nat n / 1000000000 \<le>
              base_y L - of_nat j * (2 * line_height L + sp)) \<and>
         (m < n \<longrightarrow>
            base_y L - of_nat m * (2 * line_height L + sp) \<le>
              footer_y L + 15 * mm - of_nat n / 1000000000) \<and>
         ((\<forall>j. 0 < j \<and> j < n \<longrightarrow>
             footer_y L + 15 * mm \<le> base_y L - of_nat j * (2 * line_height L + sp)) \<longrightarrow>
          m = n)))"
proof (intro conjI impI)
  show "spacing_height_of 40 4 = Inr 10" "spacing_height_of r 0 = Inr 0"
    by (simp_all add: spacing_height_of_Inr)
  show "spacing_height_of r cnt = Inr (r / of_nat cnt)" if "0 < cnt"
    using that by (simp add: spacing_height_of_Inr)
  show "column_dynamic L pd start ncols epc col st = Inr st"
    if "length (slice pd (col * epc) ((col + 1) * epc)) = 0"
    using that by (rule column_dynamic_empty)
next
  assume a: "col < ncols \<and> 0 < length (slice pd (col * epc) ((col + 1) * epc))"
  then have c: "col < ncols" and n: "0 < length (slice pd (col * epc) ((col + 1) * epc))"
    by simp_all
  from column_dynamic_placed [OF c n, of L start canvas sols] n
  show "\<exists>m s.
         spacing_height_of
           (base_y L - footer_y L - 10 * mm -
              of_nat (length (slice pd (col * epc) ((col + 1) * epc))) * (2 * line_height L))
           (length (slice pd (col * epc) ((col + 1) * epc))) = Inr s \<and>
         0 < m \<and>
         column_dynamic L pd start ncols epc col (canvas, sols) =
           Inr (canvas @
                  map (\<lambda>k. \<lparr>eq_num = start + (col * epc + k) + 1,
                             origin_x = x_positions L ncols ! col,
                             origin_y = base_y L - of_nat k * (2 * line_height L + s),
                             equations = fst (slice pd (col * epc) ((col + 1) * epc) ! k)\<rparr>)
                    [0..<m],
                sols @ map (\<lambda>k. snd (slice pd (col * epc) ((col + 1) * epc) ! k)) [0..<m])"
    unfolding spacing_height_of_Inr by auto
next
  assume a: "calculate_layout_dynamic ncols = Inr L \<and> col < ncols \<and>
    n = length (slice pd (col * epc) ((col + 1) * epc)) \<and> 0 < n \<and>
    remaining = base_y L - footer_y L - 10 * mm - of_nat n * (2 * line_height L) \<and>
    spacing_height_of remaining n = Inr sp \<and>
    (\<forall>j. 0 < j \<and> j < n \<longrightarrow>
       of_nat n / 1000000000 \<le>
         \<bar>base_y L - of_nat j * (2 * line_height L + sp) - (footer_y L + 15 * mm)\<bar>)"
  then have col: "col < ncols"
    and n: "n = length (slice pd (col * epc) ((col + 1) * epc))"
    and pos: "0 < n"
    and rem: "remaining = base_y L - footer_y L - 10 * mm - of_nat n * (2 * line_height L)"
    and sp: "spacing_height_of remaining n = Inr sp"
    and clear: "\<forall>j. 0 < j \<and> j < n \<longrightarrow>
       of_nat n / 1000000000 \<le>
         \<bar>base_y L - of_nat j * (2 * line_height L + sp) - (footer_y L + 15 * mm)\<bar>"
    by blast+
  from sp pos show sp': "sp = remaining / of_nat n"
    by (simp add: spacing_height_of_Inr)
  have A: "2 * line_height L + sp = 2 * line_height L +
      (base_y L - footer_y L - 10 * mm - of_nat n * (2 * line_height L)) / of_nat n"
    by (simp only: sp' rem)
  from column_dynamic_clear [OF col n pos A clear, of start canvas sols]
  obtain m where m: "0 < m" "m \<le> n"
    "column_dynamic L pd start ncols epc col (canvas, sols) =
           Inr (canvas @
                  map (\<lambda>k. \<lparr>eq_num = start + (col * epc + k) + 1,
                             origin_x = x_positions L ncols ! col,
                             origin_y = base_y L - of_nat k * (2 * line_height L + sp),
                             equations = fst (slice pd (col * epc) ((col + 1) * epc) ! k)\<rparr>)
                    [0..<m],
                sols @ map (\<lambda>k. snd (slice pd (col * epc) ((col + 1) * epc) ! k)) [0..<m])"
    "\<forall>j. 0 < j \<and> j < m \<longrightarrow>
            footer_y L + 15 * mm + of_nat n / 1000000000 \<le>
              base_y L - of_nat j * (2 * line_height L + sp)"
    "m < n \<longrightarrow>
            base_y L - of_nat m * (2 * line_height L + sp) \<le>
              footer_y L + 15 * mm - of_nat n / 1000000000"
    by blast
  have all: "(\<forall>j. 0 < j \<and> j < n \<longrightarrow>
             footer_y L + 15 * mm \<le> base_y L - of_nat j * (2 * line_height L + sp)) \<longrightarrow>
          m = n"
  proof
    assume fit: "\<forall>j. 0 < j \<and> j < n \<longrightarrow>
             footer_y L + 15 * mm \<le> base_y L - of_nat j * (2 * line_height L + sp)"
    have tol: "(0::rat) < of_nat n / 1000000000" using pos by simp
    show "m = n"
    proof (rule ccontr)
      assume "m \<noteq> n"
      with m(2) have lt: "m < n" by simp
      with m(5) have "base_y L - of_nat m * (2 * line_height L + sp) \<le>
              footer_y L + 15 * mm - of_nat n / 1000000000"
        by blast
      moreover from fit m(1) lt have
        "footer_y L + 15 * mm \<le> base_y L - of_nat m * (2 * line_height L + sp)"
        by blast
      ultimately show False using tol by linarith
    qed
  qed
  show "\<exists>m. 0 < m \<and> m \<le> n \<and>
         column_dynamic L pd start ncols epc col (canvas, sols) =
           Inr (canvas @
                  map (\<lambda>k. \<lparr>eq_num = start + (col * epc + k) + 1,
                             origin_x = x_positions L ncols ! col,
                             origin_y = base_y L - of_nat k * (2 * line_height L + sp),
                             equations = fst (slice pd (col * epc) ((col + 1) * epc) ! k)\<rparr>)
                    [0..<m],
                sols @ map (\<lambda>k. snd (slice pd (col * epc) ((col + 1) * epc) ! k)) [0..<m]) \<and>
         (\<forall>j. 0 < j \<and> j < m \<longrightarrow>
            footer_y L + 15 * mm + of_nat n / 1000000000 \<le>
              base_y L - of_nat j * (2 * line_height L + sp)) \<and>
         (m < n \<longrightarrow>
            base_y L - of_nat m * (2 * line_height L + sp) \<le>
              footer_y L + 15 * mm - of_nat n / 1000000000) \<and>
         ((\<forall>j. 0 < j \<and> j < n \<longrightarrow>
             footer_y L + 15 * mm \<le> base_y L - of_nat j * (2 * line_height L + sp)) \<longrightarrow>
          m = n)"
    by (rule exI [where x = m]) (intro conjI m(1) m(2) m(3) m(4) m(5) all)
qed

theorem dynamic_spacing_witness:
  "\<exists>L remaining sp.
     (0::nat) < 4 \<and> spacing_height_of 40 4 = Inr (40 / of_nat 4) \<and>
     spacing_height_of 40 4 = Inr 10 \<and>
     calculate_layout_dynamic 1 = Inr L \<and> (0::nat) < 1 \<and>
     4 = length (slice (sample_systems 4) (0 * 4) ((0 + 1) * 4)) \<and> (0::nat) < 4 \<and>
     remaining = base_y L - footer_y L - 10 * mm - of_nat 4 * (2 * line_height L) \<and>
     spacing_height_of remaining 4 = Inr sp \<and>
     (\<forall>j. 0 < j \<and> j < 4 \<longrightarrow>
        of_nat 4 / 1000000000 \<le>
          \<bar>base_y L - of_nat j * (2 * line_height L + sp) - (footer_y L + 15 * mm)\<bar>) \<and>
     0 < length (slice (sample_systems 4) (0 * 4) ((0 + 1) * 4)) \<and>
     (\<exists>m s.
        spacing_height_of
          (base_y L - footer_y L - 10 * mm -
             of_nat (length (slice (sample_systems 4) (0 * 4) ((0 + 1) * 4))) *
               (2 * line_height L))
          (length (slice (sample_systems 4) (0 * 4) ((0 + 1) * 4))) = Inr s \<and>
        0 < m \<and>
        column_dynamic L (sample_systems 4) 0 1 4 0 ([], []) =
          Inr ([] @
                 map (\<lambda>k. \<lparr>eq_num = 0 + (0 * 4 + k) + 1,
                            origin_x = x_positions L 1 ! 0,
                            origin_y = base_y L - of_nat k * (2 * line_height L + s),
                            equations =
                              fst (slice (sample_systems 4) (0 * 4) ((0 + 1) * 4) ! k)\<rparr>)
                   [0..<m],
               [] @ map (\<lambda>k. snd (slice (sample_systems 4) (0 * 4) ((0 + 1) * 4) ! k))
                      [0..<m])) \<and>
     sp = remaining / of_nat 4 \<and>
     column_dynamic L (sample_systems 4) 0 1 4 0 ([], []) =
       Inr ([] @
              map (\<lambda>k. \<lparr>eq_num = 0 + (0 * 4 + k) + 1,
                         origin_x = x_positions L 1 ! 0,
                         origin_y = base_y L - of_nat k * (2 * line_height L + sp),
                         equations =
                           fst (slice (sample_systems 4) (0 * 4) ((0 + 1) * 4) ! k)\<rparr>)
                [0..<4],
            [] @ map (\<lambda>k. snd (slice (sample_systems 4) (0 * 4) ((0 + 1) * 4) ! k))
                   [0..<4])"
proof -
  obtain L where L: "calculate_layout_dynamic 1 = Inr L"
    using calculate_layout_dynamic_ex [of 1] by auto
  note geo = calculate_layout_dynamic_Inr(2-4) [OF L]
  define remaining where
    "remaining = base_y L - footer_y L - 10 * mm - of_nat (4::nat) * (2 * line_height L)"
  define sp where "sp = remaining / of_nat (4::nat)"
  have A: "2 * line_height L + sp = 2 * line_height L +
      (base_y L - footer_y L - 10 * mm - of_nat (4::nat) * (2 * line_height L)) / of_nat (4::nat)"
    by (simp only: sp_def remaining_def)
  have h0: "(0::nat) < 4" by simp
  have h1: "(0::nat) < 1" by simp
  have h2: "4 = length (slice (sample_systems 4) (0 * 4) ((0 + 1) * 4))"
    by (simp add: length_slice)
  have h3: "spacing_height_of remaining 4 = Inr sp"
    by (simp add: spacing_height_of_Inr sp_def)
  have h4: "\<forall>j. 0 < j \<and> j < 4 \<longrightarrow>
      of_nat (4::nat) / 1000000000 \<le>
        \<bar>base_y L - of_nat j * (2 * line_height L + sp) - (footer_y L + 15 * mm)\<bar>"
  proof (intro allI impI)
    fix j :: nat assume "0 < j \<and> j < 4"
    then have "j \<le> 3" by simp
    then have ne: "1122 * 4 \<noteq> 1147 * j" by simp
    have le: "(4::nat) \<le> 20000" by simp
    from dynamic_clear_letter [OF geo h0 le ne]
    show "of_nat (4::nat) / 1000000000 \<le>
        \<bar>base_y L - of_nat j * (2 * line_height L + sp) - (footer_y L + 15 * mm)\<bar>"
      unfolding A .
  qed
  note t = dynamic_spacing [where cnt = 4 and r = 40 and pd = "sample_systems 4" and col = 0
      and epc = 4 and L = L and start = 0 and ncols = 1 and canvas = "[]" and sols = "[]"
      and n = 4 and remaining = remaining and sp = sp]
  have r1: "spacing_height_of 40 4 = Inr (40 / of_nat 4)"
    by (rule t [THEN conjunct1, rule_format, OF h0])
  have r2: "spacing_height_of 40 4 = Inr 10"
    by (rule t [THEN conjunct2, THEN conjunct1])
  have hyp: "calculate_layout_dynamic 1 = Inr L \<and> (0::nat) < 1 \<and>
    4 = length (slice (sample_systems 4) (0 * 4) ((0 + 1) * 4)) \<and> (0::nat) < 4 \<and>
    remaining = base_y L - footer_y L - 10 * mm - of_nat 4 * (2 * line_height L) \<and>
    spacing_height_of remaining 4 = Inr sp \<and>
    (\<forall>j. 0 < j \<and> j < 4 \<longrightarrow>
       of_nat 4 / 1000000000 \<le>
         \<bar>base_y L - of_nat j * (2 * line_height L + sp) - (footer_y L + 15 * mm)\<bar>)"
    by (intro conjI L h1 h2 h0 remaining_def h3 h4)
  have g1: "0 < length (slice (sample_systems 4) (0 * 4) ((0 + 1) * 4))"
    by (simp add: length_slice)
  note g2 = t [THEN conjunct2, THEN conjunct2, THEN conjunct2, THEN conjunct2, THEN conjunct1,
      rule_format, OF conjI [OF h1 g1]]
  note c = t [THEN conjunct2, THEN conjunct2, THEN conjunct2, THEN conjunct2, THEN conjunct2,
      rule_format, OF hyp]
  have r3: "sp = remaining / of_nat 4" by (rule c [THEN conjunct1])
  from c [THEN conjunct2]
  obtain m where m:
    "column_dynamic L (sample_systems 4) 0 1 4 0 ([], []) =
       Inr ([] @
              map (\<lambda>k. \<lparr>eq_num = 0 + (0 * 4 + k) + 1,
                         origin_x = x_positions L 1 ! 0,
                         origin_y = base_y L - of_nat k * (2 * line_height L + sp),
                         equations =
                           fst (slice (sample_systems 4) (0 * 4) ((0 + 1) * 4) ! k)\<rparr>)
                [0..<m],
            [] @ map (\<lambda>k. snd (slice (sample_systems 4) (0 * 4) ((0 + 1) * 4) ! k))
                   [0..<m])"
    "(\<forall>j. 0 < j \<and> j < 4 \<longrightarrow>
             footer_y L + 15 * mm \<le> base_y L - of_nat j * (2 * line_height L + sp)) \<longrightarrow>
          m = 4"
    by blast
  have "\<forall>j. 0 < j \<and> j < 4 \<longrightarrow>
      footer_y L + 15 * mm \<le> base_y L - of_nat j * (2 * line_height L + sp)"
  proof (intro allI impI)
    fix j :: nat assume j: "0 < j \<and> j < 4"
    have "\<not> (80784 :: rat) * of_nat (4::nat) < 82584 * of_nat j"
      by (rule dynamic_fits) (use j in simp_all)
    moreover have "base_y L - of_nat j * (2 * line_height L + sp) < footer_y L + 15 * mm \<longleftrightarrow>
        (80784 :: rat) * of_nat (4::nat) < 82584 * of_nat j"
      unfolding A by (rule dynamic_advance [OF geo h0])
    ultimately have "\<not> base_y L - of_nat j * (2 * line_height L + sp) < footer_y L + 15 * mm"
      by blast
    then show "footer_y L + 15 * mm \<le> base_y L - of_nat j * (2 * line_height L + sp)"
      by simp
  qed
  with m(2) have "m = 4" by blast
  with m(1) have res: "column_dynamic L (sample_systems 4) 0 1 4 0 ([], []) =
       Inr ([] @
              map (\<lambda>k. \<lparr>eq_num = 0 + (0 * 4 + k) + 1,
                         origin_x = x_positions L 1 ! 0,
                         origin_y = base_y L - of_nat k * (2 * line_height L + sp),
                         equations =
                           fst (slice (sample_systems 4) (0 * 4) ((0 + 1) * 4) ! k)\<rparr>)
                [0..<4],
            [] @ map (\<lambda>k. snd (slice (sample_systems 4) (0 * 4) ((0 + 1) * 4) ! k))
                   [0..<4])"
    by (simp only:)
  show ?thesis
    by (rule exI [where x = L], rule exI [where x = remaining], rule exI [where x = sp])
      (intro conjI h0 r1 r2 L h1 h2 remaining_def h3 h4 g1 g2 r3 res)
qed

subsection \<open>The derived and the supplied count\<close>

text \<open>
  C6, as amended. In the dynamic-fit file \<open>calculate_layout\<close> derives
  \<open>equations_per_column = floor((base_y - footer_y) / itemHeight)\<close>, which is 17 on the
  letter page, and stores it in the layout; \<open>create_pdf\<close> never reads it. A page is the
  same whatever value the layout holds there, and the pages are laid out with the
  \<open>equations_per_column\<close> that the caller supplies: for a supplied count of at most 45
  and enough systems, page \<open>p\<close> draws the \<open>num_columns * equations_per_column\<close> systems
  numbered from \<open>p * num_columns * equations_per_column + 1\<close>.
\<close>

theorem derived_count_not_used:
  "(calculate_layout_dynamic ncols = Inr L \<longrightarrow>
      equations_per_column L = \<lfloor>(base_y L - footer_y L) / (2 * line_height L)\<rfloor> \<and>
      equations_per_column L = 17) \<and>
   page_dynamic (L\<lparr>equations_per_column := v\<rparr>) all_equations ncols epc p =
     page_dynamic L all_equations ncols epc p \<and>
   (0 < ncols \<and> epc \<le> 45 \<and> npages * (ncols * epc) \<le> length all_equations \<longrightarrow>
      drawn_numbers (document_dynamic ncols epc npages all_equations) =
        Inr (map (\<lambda>p. [Suc (p * (ncols * epc))..<Suc ((p + 1) * (ncols * epc))]) [0..<npages]))"
proof (intro conjI impI)
  assume L: "calculate_layout_dynamic ncols = Inr L"
  from calculate_layout_dynamic_Inr(5) [OF L]
  show "equations_per_column L = \<lfloor>(base_y L - footer_y L) / (2 * line_height L)\<rfloor>" .
  then show "equations_per_column L = 17"
    using derived_count_letter [OF calculate_layout_dynamic_Inr(2-4) [OF L]] by simp
next
  show "page_dynamic (L\<lparr>equations_per_column := v\<rparr>) all_equations ncols epc p =
      page_dynamic L all_equations ncols epc p"
    by (rule page_dynamic_update)
next
  assume "0 < ncols \<and> epc \<le> 45 \<and> npages * (ncols * epc) \<le> length all_equations"
  then show "drawn_numbers (document_dynamic ncols epc npages all_equations) =
      Inr (map (\<lambda>p. [Suc (p * (ncols * epc))..<Suc ((p + 1) * (ncols * epc))]) [0..<npages])"
    by (intro drawn_numbers_document_dynamic) simp_all
qed

lemma upt_five: "[0..<5] = [0, 1, 2, 3, 4]"
  by (simp add: upt_rec)

theorem derived_count_not_used_witness:
  "\<exists>L. calculate_layout_dynamic 3 = Inr L \<and> equations_per_column L = 17 \<and>
     (0::nat) < 3 \<and> (4::nat) \<le> 45 \<and> 5 * (3 * 4) \<le> length (sample_systems 60) \<and>
     drawn_numbers (document_dynamic 3 4 5 (sample_systems 60)) =
       Inr [[1..<13], [13..<25], [25..<37], [37..<49], [49..<61]]"
proof -
  obtain L where L: "calculate_layout_dynamic 3 = Inr L"
    using calculate_layout_dynamic_ex [of 3] by auto
  note t = derived_count_not_used [where ncols = 3 and L = L and epc = 4 and npages = 5
      and all_equations = "sample_systems 60"]
  have h: "(0::nat) < 3 \<and> (4::nat) \<le> 45 \<and> 5 * (3 * 4) \<le> length (sample_systems 60)"
    by simp
  from t [THEN conjunct2, THEN conjunct2, rule_format, OF h]
  have "drawn_numbers (document_dynamic 3 4 5 (sample_systems 60)) =
      Inr [[1..<13], [13..<25], [25..<37], [37..<49], [49..<61]]"
    by (simp add: upt_five del: upt_rec_numeral)
  with t [THEN conjunct1, rule_format, OF L] L h show ?thesis by blast
qed

text \<open>
  C6 fails as stated. Called as in the file's own main block (3 columns, 4 systems per
  column, 5 pages), the layout holds the derived count 17, and yet every page draws
  \<open>3 * 4 = 12\<close> systems, 4 per column, although 60 systems are at hand.
\<close>

theorem derived_count_not_used_counterexample:
  "map_sum id equations_per_column (calculate_layout_dynamic 3) = Inr 17 \<and>
   length (sample_systems 60) = 60 \<and>
   drawn_numbers (document_dynamic 3 4 5 (sample_systems 60)) =
     Inr [[1..<13], [13..<25], [25..<37], [37..<49], [49..<61]]"
proof -
  obtain L where L: "calculate_layout_dynamic 3 = Inr L"
    using calculate_layout_dynamic_ex [of 3] by auto
  note geo = calculate_layout_dynamic_Inr(2-4) [OF L]
  have "equations_per_column L = 17"
    using calculate_layout_dynamic_Inr(5) [OF L] derived_count_letter [OF geo] by simp
  then have a: "map_sum id equations_per_column (calculate_layout_dynamic 3) = Inr 17"
    by (simp add: L)
  have b: "drawn_numbers (document_dynamic 3 4 5 (sample_systems 60)) =
      Inr [[1..<13], [13..<25], [25..<37], [37..<49], [49..<61]]"
    using drawn_numbers_document_dynamic [of 3 4 5 "sample_systems 60"]
    by (simp add: upt_five del: upt_rec_numeral)
  from a b show ?thesis by simp
qed

end
